theory Spec2Isabelle
  imports Complex_Main "HOL-Library.AList"
begin

section \<open>Errors as values\<close>

text \<open>
  The exceptions that the source can raise, as values.  The two assertions of
  \<^verbatim>\<open>_compute_approx_terms\<close> carry a message naming the derivative order
  (\<^verbatim>\<open>'Training pts below min for %s' % kx\<close>); the other constructors are the
  exceptions that Python, numpy and scipy raise implicitly (missing attribute,
  missing key, bad index, bad operand type, shape mismatch).  \<open>NotFittedError\<close> is
  the name used by the specification; no statement of the source raises it.
  \<open>CollaboratorError\<close> stands for whatever an external collaborator (Jacobian
  assembler, linear solver, line search) raises.
\<close>

datatype assert_msg = BelowMin int | AboveMax int

datatype error =
    AssertionError assert_msg
  | ValueError
  | KeyError
  | IndexError
  | TypeError
  | AttributeError
  | NotFittedError
  | CollaboratorError

fun rbind :: "error + 'a \<Rightarrow> ('a \<Rightarrow> error + 'b) \<Rightarrow> error + 'b" where
  "rbind (Inl e) f = Inl e"
| "rbind (Inr x) f = f x"

section \<open>Dense vectors (one-dimensional numpy arrays)\<close>

type_synonym vec = "real list"

text \<open>Binary elementwise operation with numpy's broadcasting of a length-one operand.\<close>

definition np_bin :: "(real \<Rightarrow> real \<Rightarrow> real) \<Rightarrow> vec \<Rightarrow> vec \<Rightarrow> error + vec" where
  "np_bin f a b =
     (if length a = length b then Inr (map2 f a b)
      else if length b = 1 then Inr (map (\<lambda>x. f x (hd b)) a)
      else if length a = 1 then Inr (map (\<lambda>y. f (hd a) y) b)
      else Inl ValueError)"

text \<open>In-place elementwise operation (\<^verbatim>\<open>a += b\<close>, \<^verbatim>\<open>a *= b\<close>): the result keeps the shape of \<open>a\<close>.\<close>

definition np_inplace :: "(real \<Rightarrow> real \<Rightarrow> real) \<Rightarrow> vec \<Rightarrow> vec \<Rightarrow> error + vec" where
  "np_inplace f a b =
     (if length a = length b then Inr (map2 f a b)
      else if length b = 1 then Inr (map (\<lambda>x. f x (hd b)) a)
      else Inl ValueError)"

definition np_scale :: "real \<Rightarrow> vec \<Rightarrow> vec" where
  "np_scale c v = map (\<lambda>x. c * x) v"

definition np_neg :: "vec \<Rightarrow> vec" where
  "np_neg v = map uminus v"

text \<open>
  \<^verbatim>\<open>v ** k\<close> for an integer exponent \<open>k\<close>, elementwise.  For a negative exponent
  and a zero entry numpy gives \<open>inf\<close>; \<open>powi\<close> gives \<open>0\<close> there.
\<close>

definition np_pow :: "vec \<Rightarrow> int \<Rightarrow> vec" where
  "np_pow v k = map (\<lambda>x. x powi k) v"

definition np_sum :: "vec \<Rightarrow> real" where
  "np_sum v = sum_list v"

definition np_dot :: "vec \<Rightarrow> vec \<Rightarrow> error + real" where
  "np_dot a b = (if length a = length b then Inr (sum_list (map2 (*) a b)) else Inl ValueError)"

definition np_linalg_norm :: "vec \<Rightarrow> real" where
  "np_linalg_norm v = sqrt (sum_list (map (\<lambda>x. x * x) v))"

definition np_zeros :: "nat \<Rightarrow> vec" where
  "np_zeros n = replicate n 0"

section \<open>Sparse matrices (scipy.sparse)\<close>

text \<open>
  A sparse matrix is its shape and a list of (row, column, value) triplets;
  triplets with the same position add up, as in
  \<^verbatim>\<open>csc_matrix((data, (rows, cols)), shape=...)\<close>.
\<close>

record spmat =
  nrows :: nat
  ncols :: nat
  entries :: "(nat \<times> nat \<times> real) list"

definition sp_wf :: "spmat \<Rightarrow> bool" where
  "sp_wf A = list_all (\<lambda>(r, c, a). r < nrows A \<and> c < ncols A) (entries A)"

text \<open>The constructor refuses triplet arrays of different lengths and indices outside the shape.\<close>

definition csc_matrix :: "vec \<Rightarrow> nat list \<Rightarrow> nat list \<Rightarrow> nat \<times> nat \<Rightarrow> error + spmat" where
  "csc_matrix data rows cols shape =
     (if length rows = length data \<and> length cols = length data
         \<and> list_all (\<lambda>r. r < fst shape) rows \<and> list_all (\<lambda>c. c < snd shape) cols
      then Inr \<lparr>nrows = fst shape, ncols = snd shape, entries = zip rows (zip cols data)\<rparr>
      else Inl ValueError)"

definition sp_row_dot :: "(nat \<times> nat \<times> real) list \<Rightarrow> vec \<Rightarrow> nat \<Rightarrow> real" where
  "sp_row_dot es v i = sum_list (map (\<lambda>(r, c, a). if r = i then a * v ! c else 0) es)"

definition mat_vec :: "spmat \<Rightarrow> vec \<Rightarrow> vec" where
  "mat_vec A v = map (sp_row_dot (entries A) v) [0..<nrows A]"

text \<open>Matrix times one-dimensional array, \<^verbatim>\<open>A * v\<close>: scipy refuses a vector of the wrong length.\<close>

definition sp_matvec :: "spmat \<Rightarrow> vec \<Rightarrow> error + vec" where
  "sp_matvec A v = (if length v = ncols A then Inr (mat_vec A v) else Inl ValueError)"

text \<open>Scalar times matrix.\<close>

definition sp_scale :: "real \<Rightarrow> spmat \<Rightarrow> spmat" where
  "sp_scale s A = A\<lparr>entries := map (\<lambda>(r, c, a). (r, c, s * a)) (entries A)\<rparr>"

text \<open>\<^verbatim>\<open>A.T\<close>\<close>

definition sp_transpose :: "spmat \<Rightarrow> spmat" where
  "sp_transpose A =
     \<lparr>nrows = ncols A, ncols = nrows A, entries = map (\<lambda>(r, c, a). (c, r, a)) (entries A)\<rparr>"

text \<open>Matrix times matrix.\<close>

definition sp_matmul :: "spmat \<Rightarrow> spmat \<Rightarrow> error + spmat" where
  "sp_matmul A B =
     (if ncols A = nrows B
      then Inr \<lparr>nrows = nrows A, ncols = ncols B,
                entries = concat (map (\<lambda>(i, j, a).
                            map (\<lambda>(j', k, b). (i, k, a * b))
                                (filter (\<lambda>(j', k, b). j' = j) (entries B)))
                          (entries A))\<rparr>
      else Inl ValueError)"

text \<open>\<^verbatim>\<open>A += B\<close>\<close>

definition sp_iadd :: "spmat \<Rightarrow> spmat \<Rightarrow> error + spmat" where
  "sp_iadd A B =
     (if nrows A = nrows B \<and> ncols A = ncols B
      then Inr (A\<lparr>entries := entries A @ entries B\<rparr>)
      else Inl ValueError)"

text \<open>\<^verbatim>\<open>scipy.sparse.diags(d, format='csc')\<close>\<close>

definition sp_diags :: "vec \<Rightarrow> spmat" where
  "sp_diags d =
     \<lparr>nrows = length d, ncols = length d, entries = map (\<lambda>i. (i, i, d ! i)) [0..<length d]\<rparr>"

text \<open>
  What the linear solver receives: an explicit sparse matrix, or a
  \<^verbatim>\<open>LinearOperator(shape, matvec=...)\<close> that only offers a matrix-vector product
  and checks the length of its argument before calling \<open>matvec\<close>.
\<close>

datatype linop = Mtx spmat | Op "nat \<times> nat" "vec \<Rightarrow> error + vec"

fun apply_linop :: "linop \<Rightarrow> vec \<Rightarrow> error + vec" where
  "apply_linop (Mtx A) v = sp_matvec A v"
| "apply_linop (Op shape f) v = (if length v = snd shape then f v else Inl ValueError)"

section \<open>Dictionaries\<close>

text \<open>
  A Python dict is an association list in iteration order; \<^verbatim>\<open>for kx in d\<close> runs over
  its keys, \<^verbatim>\<open>d[kx]\<close> raises \<open>KeyError\<close> on a missing key.
\<close>

definition keys :: "('k \<times> 'v) list \<Rightarrow> 'k list" where
  "keys d = map fst d"

definition lookup :: "('k \<times> 'v) list \<Rightarrow> 'k \<Rightarrow> error + 'v" where
  "lookup d k = (case map_of d k of None \<Rightarrow> Inl KeyError | Some v \<Rightarrow> Inr v)"

text \<open>
  \<^verbatim>\<open>training_pts['exact']\<close>: derivative order \<open>kx\<close> (0 for values, \<open>kx > 0\<close> for the
  1-based index of the derivative) to the pair \<open>(xt, yt)\<close> of input points and
  targets, both two-dimensional arrays given as lists of rows.
\<close>

type_synonym training_pts = "(int \<times> (real list list \<times> real list list)) list"
type_synonym jac_dict = "(int \<times> (spmat \<times> spmat)) list"
type_synonym yt_dict = "(int \<times> vec) list"

section \<open>Objective, gradient and Hessian of the fit\<close>

text \<open>\<^verbatim>\<open>_opt_func\<close>\<close>

fun opt_func_loop :: "vec \<Rightarrow> int \<Rightarrow> jac_dict \<Rightarrow> yt_dict \<Rightarrow> int list \<Rightarrow> real \<Rightarrow> error + real" where
  "opt_func_loop sol p jd yd [] func = Inr func"
| "opt_func_loop sol p jd yd (kx # kxs) func =
     rbind (lookup jd kx) (\<lambda>(full_jac, full_jac_T).
     rbind (lookup yd kx) (\<lambda>yt.
     rbind (sp_matvec full_jac sol) (\<lambda>js.
     rbind (np_bin (-) js yt) (\<lambda>res.
     opt_func_loop sol p jd yd kxs (func + 0.5 * np_sum (np_pow res p))))))"

definition opt_func :: "training_pts \<Rightarrow> vec \<Rightarrow> int \<Rightarrow> spmat \<Rightarrow> jac_dict \<Rightarrow> yt_dict \<Rightarrow> error + real" where
  "opt_func tp sol p full_hess jd yd =
     rbind (sp_matvec full_hess sol) (\<lambda>hs.
     rbind (np_dot sol hs) (\<lambda>d.
     opt_func_loop sol p jd yd (keys tp) (0.5 * d)))"

text \<open>
  \<^verbatim>\<open>_opt_grad\<close>: \<^verbatim>\<open>grad += 0.5 * full_jac_T * p * (full_jac * sol - yt) ** (p - 1)\<close>
  multiplies from the left: the transposed Jacobian is scaled by \<open>0.5\<close>, then by \<open>p\<close>,
  and the scaled matrix is applied to the powered residual.
\<close>

fun opt_grad_loop :: "vec \<Rightarrow> int \<Rightarrow> jac_dict \<Rightarrow> yt_dict \<Rightarrow> int list \<Rightarrow> vec \<Rightarrow> error + vec" where
  "opt_grad_loop sol p jd yd [] grad = Inr grad"
| "opt_grad_loop sol p jd yd (kx # kxs) grad =
     rbind (lookup jd kx) (\<lambda>(full_jac, full_jac_T).
     rbind (lookup yd kx) (\<lambda>yt.
     rbind (sp_matvec full_jac sol) (\<lambda>js.
     rbind (np_bin (-) js yt) (\<lambda>res.
     rbind (sp_matvec (sp_scale (real_of_int p) (sp_scale 0.5 full_jac_T)) (np_pow res (p - 1))) (\<lambda>t.
     rbind (np_inplace (+) grad t) (\<lambda>grad'.
     opt_grad_loop sol p jd yd kxs grad'))))))"

definition opt_grad :: "training_pts \<Rightarrow> vec \<Rightarrow> int \<Rightarrow> spmat \<Rightarrow> jac_dict \<Rightarrow> yt_dict \<Rightarrow> error + vec" where
  "opt_grad tp sol p full_hess jd yd =
     rbind (sp_matvec full_hess sol) (\<lambda>grad.
     opt_grad_loop sol p jd yd (keys tp) grad)"

text \<open>\<^verbatim>\<open>_opt_norm\<close>\<close>

definition opt_norm :: "training_pts \<Rightarrow> vec \<Rightarrow> int \<Rightarrow> spmat \<Rightarrow> jac_dict \<Rightarrow> yt_dict \<Rightarrow> error + real" where
  "opt_norm tp sol p full_hess jd yd =
     rbind (opt_grad tp sol p full_hess jd yd) (\<lambda>grad. Inr (np_linalg_norm grad))"

text \<open>\<^verbatim>\<open>_opt_hess_mtx\<close>: the explicit sparse Hessian; the loop runs over the orders of the training set.\<close>

fun opt_hess_mtx_loop :: "vec \<Rightarrow> int \<Rightarrow> jac_dict \<Rightarrow> yt_dict \<Rightarrow> int list \<Rightarrow> spmat \<Rightarrow> error + spmat" where
  "opt_hess_mtx_loop sol p jd yd [] hess = Inr hess"
| "opt_hess_mtx_loop sol p jd yd (kx # kxs) hess =
     rbind (lookup jd kx) (\<lambda>(full_jac, full_jac_T).
     rbind (lookup yd kx) (\<lambda>yt.
     rbind (sp_matvec full_jac sol) (\<lambda>js.
     rbind (np_bin (-) js yt) (\<lambda>res.
     rbind (sp_matmul (sp_scale 0.5 full_jac_T)
                      (sp_diags (np_scale (real_of_int (p * (p - 1))) (np_pow res (p - 2))))) (\<lambda>m.
     rbind (sp_matmul m full_jac) (\<lambda>m'.
     rbind (sp_iadd hess m') (\<lambda>hess'.
     opt_hess_mtx_loop sol p jd yd kxs hess')))))))"

definition opt_hess_mtx :: "training_pts \<Rightarrow> vec \<Rightarrow> int \<Rightarrow> spmat \<Rightarrow> jac_dict \<Rightarrow> yt_dict \<Rightarrow> error + spmat" where
  "opt_hess_mtx tp sol p full_hess jd yd = opt_hess_mtx_loop sol p jd yd (keys tp) full_hess"

text \<open>
  \<^verbatim>\<open>_opt_hess_op\<close>: the constructor of the inner class tabulates \<open>diag_vec\<close> for the
  keys of \<open>full_jac_dict\<close>; \<open>dot\<close> runs over the same keys.
\<close>

fun op_diag_vec :: "vec \<Rightarrow> int \<Rightarrow> jac_dict \<Rightarrow> yt_dict \<Rightarrow> int list \<Rightarrow> (int \<times> vec) list \<Rightarrow> error + (int \<times> vec) list" where
  "op_diag_vec sol p jd yd [] dv = Inr dv"
| "op_diag_vec sol p jd yd (kx # kxs) dv =
     rbind (lookup jd kx) (\<lambda>(full_jac, full_jac_T).
     rbind (lookup yd kx) (\<lambda>yt.
     rbind (sp_matvec full_jac sol) (\<lambda>js.
     rbind (np_bin (-) js yt) (\<lambda>res.
     op_diag_vec sol p jd yd kxs
       (AList.update kx (np_scale (real_of_int (p * (p - 1))) (np_pow res (p - 2))) dv)))))"

fun op_dot_loop :: "jac_dict \<Rightarrow> (int \<times> vec) list \<Rightarrow> vec \<Rightarrow> int list \<Rightarrow> vec \<Rightarrow> error + vec" where
  "op_dot_loop jd dv other [] v = Inr v"
| "op_dot_loop jd dv other (kx # kxs) v =
     rbind (lookup jd kx) (\<lambda>(full_jac, full_jac_T).
     rbind (lookup dv kx) (\<lambda>d.
     rbind (sp_matvec full_jac other) (\<lambda>jo.
     rbind (np_bin (*) d jo) (\<lambda>w.
     rbind (sp_matvec (sp_scale 0.5 full_jac_T) w) (\<lambda>t.
     rbind (np_inplace (+) v t) (\<lambda>v'.
     op_dot_loop jd dv other kxs v'))))))"

definition op_dot :: "spmat \<Rightarrow> jac_dict \<Rightarrow> (int \<times> vec) list \<Rightarrow> vec \<Rightarrow> error + vec" where
  "op_dot full_hess jd dv other =
     rbind (sp_matvec full_hess other) (\<lambda>v. op_dot_loop jd dv other (keys jd) v)"

definition opt_hess_op :: "vec \<Rightarrow> int \<Rightarrow> spmat \<Rightarrow> jac_dict \<Rightarrow> yt_dict \<Rightarrow> error + linop" where
  "opt_hess_op sol p full_hess jd yd =
     rbind (op_diag_vec sol p jd yd (keys jd) []) (\<lambda>dv.
     Inr (Op (nrows full_hess, ncols full_hess) (op_dot full_hess jd dv)))"

text \<open>\<^verbatim>\<open>_opt_hess\<close>\<close>

definition opt_hess :: "bool \<Rightarrow> training_pts \<Rightarrow> vec \<Rightarrow> int \<Rightarrow> spmat \<Rightarrow> jac_dict \<Rightarrow> yt_dict \<Rightarrow> error + linop" where
  "opt_hess use_mtx_free tp sol p full_hess jd yd =
     (if use_mtx_free then opt_hess_op sol p full_hess jd yd
      else rbind (opt_hess_mtx tp sol p full_hess jd yd) (\<lambda>m. Inr (Mtx m)))"

section \<open>Shape conditions\<close>

text \<open>
  The conditions under which scipy and numpy accept the operands of the fit: the
  Jacobian dictionary has the orders of the training set, every stored pair has the
  shapes of a Jacobian and its transpose against \<open>dof\<close> coefficients, every target
  vector has one entry per training point, and the triplets of every matrix lie
  inside its shape (which the constructor of a scipy matrix enforces).
\<close>

definition diag_vec_of :: "vec \<Rightarrow> int \<Rightarrow> jac_dict \<Rightarrow> yt_dict \<Rightarrow> int \<Rightarrow> vec" where
  "diag_vec_of sol p jd yd kx =
     (case (map_of jd kx, map_of yd kx) of
        (Some (full_jac, full_jac_T), Some yt) \<Rightarrow>
          np_scale (real_of_int (p * (p - 1)))
            (np_pow (map2 (-) (mat_vec full_jac sol) yt) (p - 2))
      | _ \<Rightarrow> [])"

definition term_ok :: "nat \<Rightarrow> jac_dict \<Rightarrow> yt_dict \<Rightarrow> int \<Rightarrow> bool" where
  "term_ok dof jd yd kx =
     (case (map_of jd kx, map_of yd kx) of
        (Some (full_jac, full_jac_T), Some yt) \<Rightarrow>
          sp_wf full_jac \<and> sp_wf full_jac_T \<and> ncols full_jac = dof \<and> nrows full_jac_T = dof
          \<and> ncols full_jac_T = nrows full_jac \<and> length yt = nrows full_jac
      | _ \<Rightarrow> False)"

definition system_ok :: "training_pts \<Rightarrow> spmat \<Rightarrow> jac_dict \<Rightarrow> yt_dict \<Rightarrow> nat \<Rightarrow> bool" where
  "system_ok tp full_hess jd yd dof =
     (keys jd = keys tp \<and> nrows full_hess = dof \<and> ncols full_hess = dof
      \<and> list_all (term_ok dof jd yd) (keys tp))"

section \<open>The formulas of the specification\<close>

text \<open>
  The Jacobian set and the target set as one list: for every derivative order the
  Jacobian and the target vector.  \<open>jac_dict_of\<close> and \<open>yt_dict_of\<close> are the two
  dictionaries that \<^verbatim>\<open>_compute_approx_terms\<close> and \<^verbatim>\<open>_get_yt_dict\<close> build from them:
  the Jacobian is stored with its transpose.
\<close>

type_synonym approx_terms = "(int \<times> spmat \<times> vec) list"

definition jac_dict_of :: "approx_terms \<Rightarrow> jac_dict" where
  "jac_dict_of terms = map (\<lambda>(kx, J, y). (kx, (J, sp_transpose J))) terms"

definition yt_dict_of :: "approx_terms \<Rightarrow> yt_dict" where
  "yt_dict_of terms = map (\<lambda>(kx, J, y). (kx, y)) terms"

definition vec_add :: "vec \<Rightarrow> vec \<Rightarrow> vec" where
  "vec_add a b = map2 (+) a b"

definition vec_sum :: "nat \<Rightarrow> vec list \<Rightarrow> vec" where
  "vec_sum n vs = foldr vec_add vs (replicate n 0)"

text \<open>
  The gradient as the specification writes it:
  \<open>H sol + 0.5 p \<Sum>\<^sub>k Jac\<^sub>k\<^sup>T (Jac\<^sub>k sol - target\<^sub>k)\<^bsup>p-1\<^esup>\<close>, powers elementwise.
\<close>

definition grad_formula :: "spmat \<Rightarrow> (spmat \<times> vec) list \<Rightarrow> vec \<Rightarrow> int \<Rightarrow> vec" where
  "grad_formula H terms sol p =
     vec_add (mat_vec H sol)
       (np_scale (0.5 * real_of_int p)
          (vec_sum (length sol)
             (map (\<lambda>(J, y). mat_vec (sp_transpose J) (np_pow (map2 (-) (mat_vec J sol) y) (p - 1)))
                  terms)))"

definition euclid_norm :: "vec \<Rightarrow> real" where
  "euclid_norm g = sqrt (\<Sum>x\<leftarrow>g. x ^ 2)"

text \<open>The shapes of a Jacobian set against \<open>dof\<close> coefficients.\<close>

definition terms_ok :: "nat \<Rightarrow> approx_terms \<Rightarrow> bool" where
  "terms_ok dof terms =
     (distinct (map fst terms)
      \<and> list_all (\<lambda>(kx, J, y). ncols J = dof \<and> length y = nrows J) terms)"

section \<open>Options, sizes and the training set\<close>

text \<open>
  The entries of \<^verbatim>\<open>sm_options\<close> that the methods below read.  \<open>xlimits\<close> is the array
  of lower and upper bounds, one pair for each input dimension.  The linear solver and
  the line search that \<^verbatim>\<open>get_solver\<close> and \<^verbatim>\<open>get_line_search_class\<close> select by name are
  passed to the methods as functions.
\<close>

record sm_options =
  xlimits :: "(real \<times> real) list"
  reg_dv :: real
  extrapolate :: bool
  approx_norm :: int
  use_mtx_free :: bool
  max_nln_iter :: int

text \<open>The sizing dictionary \<^verbatim>\<open>self.num\<close>, with its entries \<open>x\<close>, \<open>y\<close>, \<open>coeff\<close>, \<open>support\<close>, \<open>dof\<close>.\<close>

record num_rec =
  num_x :: nat
  num_y :: nat
  num_coeff :: nat
  num_support :: nat
  num_dof :: nat

text \<open>
  The Jacobian assembler \<^verbatim>\<open>self._compute_jac(kx, ix, x)\<close> is a method of the subclasses:
  it takes the derivative index (possibly \<open>None\<close>), a second index and the points, and
  returns the triplet arrays \<open>(data, rows, cols)\<close>, or raises.
\<close>

type_synonym compute_jac = "int option \<Rightarrow> nat \<Rightarrow> real list list \<Rightarrow> error + (vec \<times> nat list \<times> nat list)"

text \<open>\<^verbatim>\<open>_initialize_hessian\<close>: \<open>reg_dv\<close> on the diagonal.\<close>

definition initialize_hessian :: "sm_options \<Rightarrow> num_rec \<Rightarrow> spmat" where
  "initialize_hessian opts num =
     \<lparr>nrows = num_dof num, ncols = num_dof num,
      entries = map (\<lambda>i. (i, i, reg_dv opts * 1)) [0..<num_dof num]\<rparr>"

section \<open>The approximation terms\<close>














section \<open>The fit driver\<close>

text \<open>
  The linear solver and the line search are collaborators outside the sources.  A
  solver is initialized with the system (\<^verbatim>\<open>solver._initialize(mtx, ...)\<close>) and then
  overwrites the array it is given with the solution
  (\<^verbatim>\<open>solver._solve(rhs, sol, ind_y)\<close>): \<open>solver_solve\<close> takes the system, the right-hand
  side, the content of the output array before the call and the column index, and
  returns the content after the call.  A line search is built from the current point,
  the direction, the objective and its gradient, and is called with the initial step
  length.  Each of them may raise.
\<close>

record collaborators =
  solver_initialize :: "linop \<Rightarrow> error + unit"
  solver_solve :: "linop \<Rightarrow> vec \<Rightarrow> vec \<Rightarrow> nat \<Rightarrow> error + vec"
  line_search :: "vec \<Rightarrow> vec \<Rightarrow> (vec \<Rightarrow> error + real) \<Rightarrow> (vec \<Rightarrow> error + vec) \<Rightarrow> real \<Rightarrow> error + vec"

text \<open>
  What the driver does to the outside, in order: the calls of the solver and of the
  line search, each with its arguments and its outcome, and the lines
  \<^verbatim>\<open>'Nonlinear (itn, iy, grad. norm, func.) : ...'\<close> given to the printer.
\<close>

datatype event =
    SolverInitialize linop
  | SolverSolve vec vec nat "error + vec"
  | LineSearch vec vec real "error + vec"
  | Printed nat nat real real

type_synonym 'a run = "event list \<times> (error + 'a)"

fun wbind :: "'a run \<Rightarrow> ('a \<Rightarrow> 'b run) \<Rightarrow> 'b run" where
  "wbind (evs, Inl e) f = (evs, Inl e)"
| "wbind (evs, Inr x) f = (case f x of (evs', r) \<Rightarrow> (evs @ evs', r))"

definition quiet :: "error + 'a \<Rightarrow> 'a run" where
  "quiet m = ([], m)"

definition emit :: "event \<Rightarrow> error + 'a \<Rightarrow> 'a run" where
  "emit e m = ([e], m)"

fun rmap :: "('a \<Rightarrow> error + 'b) \<Rightarrow> 'a list \<Rightarrow> error + 'b list" where
  "rmap f [] = Inr []"
| "rmap f (x # xs) = rbind (f x) (\<lambda>y. rbind (rmap f xs) (\<lambda>ys. Inr (y # ys)))"

fun wmap :: "('a \<Rightarrow> 'b run) \<Rightarrow> 'a list \<Rightarrow> 'b list run" where
  "wmap f [] = ([], Inr [])"
| "wmap f (x # xs) = wbind (f x) (\<lambda>y. wbind (wmap f xs) (\<lambda>ys. ([], Inr (y # ys))))"

text \<open>
  Column \<open>j\<close> of a two-dimensional array given as its list of rows, \<^verbatim>\<open>a[:, j]\<close>.  (For an
  array without rows the list does not record the number of columns, and the column
  is empty.)
\<close>

definition np_col :: "real list list \<Rightarrow> nat \<Rightarrow> error + vec" where
  "np_col a j = (if list_all (\<lambda>row. j < length row) a then Inr (map (\<lambda>row. row ! j) a)
                 else Inl IndexError)"

text \<open>Assignment to a column of \<open>n\<close> entries, \<^verbatim>\<open>a[:, j] = v\<close>.\<close>

definition np_assign :: "nat \<Rightarrow> vec \<Rightarrow> error + vec" where
  "np_assign n v = (if length v = n then Inr v
                    else if length v = 1 then Inr (replicate n (hd v))
                    else Inl ValueError)"

text \<open>\<^verbatim>\<open>_get_yt_dict\<close>\<close>

fun get_yt_dict_loop :: "training_pts \<Rightarrow> nat \<Rightarrow> int list \<Rightarrow> yt_dict \<Rightarrow> error + yt_dict" where
  "get_yt_dict_loop tp ind_y [] yt_dict = Inr yt_dict"
| "get_yt_dict_loop tp ind_y (kx # kxs) yt_dict =
     rbind (lookup tp kx) (\<lambda>(xt, yt).
     rbind (np_col yt ind_y) (\<lambda>c.
     get_yt_dict_loop tp ind_y kxs (AList.update kx c yt_dict)))"

definition get_yt_dict :: "training_pts \<Rightarrow> nat \<Rightarrow> error + yt_dict" where
  "get_yt_dict tp ind_y = get_yt_dict_loop tp ind_y (keys tp) []"

text \<open>
  \<^verbatim>\<open>_opt_hess_mtx_2\<close>, \<^verbatim>\<open>_opt_hess_op_2\<close> and \<^verbatim>\<open>_opt_hess_2\<close>: the Hessian for \<open>p = 2\<close>,
  with the factor \<^verbatim>\<open>0.5 * p * (p - 1)\<close>.
\<close>

fun opt_hess_mtx_2_loop :: "jac_dict \<Rightarrow> int list \<Rightarrow> spmat \<Rightarrow> error + spmat" where
  "opt_hess_mtx_2_loop jd [] hess = Inr hess"
| "opt_hess_mtx_2_loop jd (kx # kxs) hess =
     rbind (lookup jd kx) (\<lambda>(full_jac, full_jac_T).
     rbind (sp_matmul (sp_scale (0.5 * 2 * (2 - 1)) full_jac_T) full_jac) (\<lambda>m.
     rbind (sp_iadd hess m) (\<lambda>hess'.
     opt_hess_mtx_2_loop jd kxs hess')))"

definition opt_hess_mtx_2 :: "training_pts \<Rightarrow> spmat \<Rightarrow> jac_dict \<Rightarrow> error + spmat" where
  "opt_hess_mtx_2 tp full_hess jd = opt_hess_mtx_2_loop jd (keys tp) full_hess"

fun op_2_dot_loop :: "jac_dict \<Rightarrow> vec \<Rightarrow> int list \<Rightarrow> vec \<Rightarrow> error + vec" where
  "op_2_dot_loop jd other [] v = Inr v"
| "op_2_dot_loop jd other (kx # kxs) v =
     rbind (lookup jd kx) (\<lambda>(full_jac, full_jac_T).
     rbind (sp_matvec full_jac other) (\<lambda>jo.
     rbind (sp_matvec (sp_scale (0.5 * 2 * (2 - 1)) full_jac_T) jo) (\<lambda>t.
     rbind (np_inplace (+) v t) (\<lambda>v'.
     op_2_dot_loop jd other kxs v'))))"

definition op_2_dot :: "spmat \<Rightarrow> jac_dict \<Rightarrow> vec \<Rightarrow> error + vec" where
  "op_2_dot full_hess jd other =
     rbind (sp_matvec full_hess other) (\<lambda>v. op_2_dot_loop jd other (keys jd) v)"

definition opt_hess_op_2 :: "spmat \<Rightarrow> jac_dict \<Rightarrow> error + linop" where
  "opt_hess_op_2 full_hess jd = Inr (Op (nrows full_hess, ncols full_hess) (op_2_dot full_hess jd))"

definition opt_hess_2 :: "bool \<Rightarrow> training_pts \<Rightarrow> spmat \<Rightarrow> jac_dict \<Rightarrow> error + linop" where
  "opt_hess_2 mtx_free tp full_hess jd =
     (if mtx_free then opt_hess_op_2 full_hess jd
      else rbind (opt_hess_mtx_2 tp full_hess jd) (\<lambda>m. Inr (Mtx m)))"

text \<open>
  \<^verbatim>\<open>_solve\<close>, first part (\<^verbatim>\<open>'Solving initial linear problem'\<close>): the system for \<open>p = 2\<close>
  is assembled once, the right-hand side of every column is the negative gradient for
  \<open>p = 2\<close> at the zero vector, the solver is initialized once and called once for every
  column.  The result is the list of the columns of \<open>sol\<close>.
\<close>

definition bootstrap_rhs :: "num_rec \<Rightarrow> training_pts \<Rightarrow> spmat \<Rightarrow> jac_dict \<Rightarrow> nat \<Rightarrow> error + vec" where
  "bootstrap_rhs num tp full_hess jd ind_y =
     rbind (get_yt_dict tp ind_y) (\<lambda>yt_dict.
     rbind (opt_grad tp (np_zeros (num_dof num)) 2 full_hess jd yt_dict) (\<lambda>g.
     np_assign (num_dof num) (np_neg g)))"

definition bootstrap ::
  "collaborators \<Rightarrow> sm_options \<Rightarrow> num_rec \<Rightarrow> training_pts \<Rightarrow> spmat \<Rightarrow> jac_dict \<Rightarrow> vec list run" where
  "bootstrap co opts num tp full_hess jd =
     wbind (quiet (opt_hess_2 (use_mtx_free opts) tp full_hess jd)) (\<lambda>mtx.
     wbind (quiet (rmap (bootstrap_rhs num tp full_hess jd) [0..<num_y num])) (\<lambda>rhs.
     wbind (emit (SolverInitialize mtx) (solver_initialize co mtx)) (\<lambda>_.
     wmap (\<lambda>(ind_y, b).
             (let r = solver_solve co mtx b (np_zeros (num_dof num)) ind_y
              in emit (SolverSolve b (np_zeros (num_dof num)) ind_y r) r))
          (zip [0..<num_y num] rhs))))"

text \<open>
  One pass through the body of the Newton loop for column \<open>ind_y\<close>, from the current
  \<open>sol[:, ind_y]\<close> and \<open>d_sol[:, ind_y]\<close>: it returns both columns after the pass and the
  gradient norm recomputed after the line search.
\<close>

definition newton_iteration ::
  "collaborators \<Rightarrow> sm_options \<Rightarrow> num_rec \<Rightarrow> training_pts \<Rightarrow> spmat \<Rightarrow> jac_dict \<Rightarrow> yt_dict
     \<Rightarrow> nat \<Rightarrow> nat \<Rightarrow> vec \<times> vec \<Rightarrow> (vec \<times> vec \<times> real) run" where
  "newton_iteration co opts num tp full_hess jd yt_dict ind_y nln_iter cur =
     (case cur of (sol, d_sol) \<Rightarrow>
     (let p = approx_norm opts in
      wbind (quiet (opt_hess (use_mtx_free opts) tp sol p full_hess jd yt_dict)) (\<lambda>mtx.
      wbind (quiet (rbind (opt_grad tp sol p full_hess jd yt_dict) (\<lambda>g.
                    np_assign (num_dof num) (np_neg g)))) (\<lambda>rhs.
      wbind (emit (SolverInitialize mtx) (solver_initialize co mtx)) (\<lambda>_.
      wbind (let r = solver_solve co mtx rhs d_sol ind_y
             in emit (SolverSolve rhs d_sol ind_y r) r) (\<lambda>d_sol'.
      wbind (let r = rbind (line_search co sol d_sol'
                              (\<lambda>x. opt_func tp x p full_hess jd yt_dict)
                              (\<lambda>x. opt_grad tp x p full_hess jd yt_dict) 1.0)
                           (np_assign (num_dof num))
             in emit (LineSearch sol d_sol' 1.0 r) r) (\<lambda>sol'.
      wbind (quiet (opt_norm tp sol' p full_hess jd yt_dict)) (\<lambda>norm.
      wbind (quiet (opt_func tp sol' p full_hess jd yt_dict)) (\<lambda>fval.
      wbind (emit (Printed (nln_iter + 1) ind_y norm fval) (Inr ())) (\<lambda>_.
      quiet (Inr (sol', d_sol', norm))))))))))))"

text \<open>
  The Newton loop \<^verbatim>\<open>for nln_iter in range(max_nln_iter)\<close> with its \<^verbatim>\<open>break\<close>: \<open>k\<close> is the
  number of passes that remain.
\<close>

fun newton_loop ::
  "collaborators \<Rightarrow> sm_options \<Rightarrow> num_rec \<Rightarrow> training_pts \<Rightarrow> spmat \<Rightarrow> jac_dict \<Rightarrow> yt_dict
     \<Rightarrow> nat \<Rightarrow> nat \<Rightarrow> nat \<Rightarrow> vec \<times> vec \<Rightarrow> vec run" where
  "newton_loop co opts num tp full_hess jd yt_dict ind_y 0 nln_iter cur = quiet (Inr (fst cur))"
| "newton_loop co opts num tp full_hess jd yt_dict ind_y (Suc k) nln_iter cur =
     wbind (newton_iteration co opts num tp full_hess jd yt_dict ind_y nln_iter cur)
       (\<lambda>(sol', d_sol', norm).
          if norm < 1 / 10 ^ 16 then quiet (Inr sol')
          else newton_loop co opts num tp full_hess jd yt_dict ind_y k (nln_iter + 1) (sol', d_sol'))"

text \<open>\<^verbatim>\<open>_solve\<close>, second part (\<^verbatim>\<open>'Solving nonlinear problem'\<close>) for one column.\<close>

definition solve_column ::
  "collaborators \<Rightarrow> sm_options \<Rightarrow> num_rec \<Rightarrow> training_pts \<Rightarrow> spmat \<Rightarrow> jac_dict
     \<Rightarrow> nat \<Rightarrow> vec \<Rightarrow> vec run" where
  "solve_column co opts num tp full_hess jd ind_y sol =
     (let p = approx_norm opts in
      wbind (quiet (get_yt_dict tp ind_y)) (\<lambda>yt_dict.
      wbind (if max_nln_iter opts > 0
             then wbind (quiet (opt_norm tp sol p full_hess jd yt_dict)) (\<lambda>norm.
                  wbind (quiet (opt_func tp sol p full_hess jd yt_dict)) (\<lambda>fval.
                  emit (Printed 0 ind_y norm fval) (Inr ())))
             else quiet (Inr ())) (\<lambda>_.
      newton_loop co opts num tp full_hess jd yt_dict ind_y (nat (max_nln_iter opts)) 0
        (sol, np_zeros (num_dof num)))))"

text \<open>\<^verbatim>\<open>_solve\<close>: the run of the whole method; its value is the list of the columns of \<open>sol\<close>.\<close>

definition solve ::
  "collaborators \<Rightarrow> sm_options \<Rightarrow> num_rec \<Rightarrow> training_pts \<Rightarrow> spmat \<Rightarrow> jac_dict \<Rightarrow> vec list run" where
  "solve co opts num tp full_hess jd =
     wbind (bootstrap co opts num tp full_hess jd) (\<lambda>sol.
     wmap (\<lambda>(ind_y, s). solve_column co opts num tp full_hess jd ind_y s)
          (zip [0..<num_y num] sol))"

section \<open>Evaluation\<close>

text \<open>
  The model instance \<^verbatim>\<open>self\<close>.  The sizing dictionary \<^verbatim>\<open>self.num\<close> and the coefficients
  \<^verbatim>\<open>self.sol\<close> (the list of its columns) are attributes that a fit creates (\<^verbatim>\<open>fit\<close>
  assigns both when it loads a cached solution); before that they are absent, and
  reading an absent attribute raises \<open>AttributeError\<close>.
\<close>

record rmt =
  self_options :: sm_options
  self_training_pts :: training_pts
  self_num :: "num_rec option"
  self_sol :: "vec list option"

definition attr :: "'a option \<Rightarrow> error + 'a" where
  "attr a = (case a of None \<Rightarrow> Inl AttributeError | Some v \<Rightarrow> Inr v)"

text \<open>
  \<^verbatim>\<open>RMTSlib.compute_ext_dist(nx, n, ndx, xlimits, x)\<close> is a compiled routine outside the
  sources: it returns the array \<open>dx\<close> of offsets from the nearest point of the domain,
  one row for each entry of the Jacobian data and one column for each input dimension.
\<close>

type_synonym compute_ext_dist =
  "nat \<Rightarrow> nat \<Rightarrow> nat \<Rightarrow> (real \<times> real) list \<Rightarrow> real list list \<Rightarrow> error + real list list"

text \<open>Column \<open>j\<close> for a Python integer \<open>j\<close>: a negative index counts from the last column.\<close>

definition np_col_int :: "real list list \<Rightarrow> int \<Rightarrow> error + vec" where
  "np_col_int a j =
     (if list_all (\<lambda>row. - int (length row) \<le> j \<and> j < int (length row)) a
      then Inr (map (\<lambda>row. row ! nat (if j < 0 then int (length row) + j else j)) a)
      else Inl IndexError)"

text \<open>\<^verbatim>\<open>np.array(np.array(dx, bool), float)\<close>\<close>

definition isexternal_of :: "real list list \<Rightarrow> real list list" where
  "isexternal_of dx = map (map (\<lambda>d. if d \<noteq> 0 then 1 else 0)) dx"

text \<open>
  The body of the loop over \<open>ix\<close> in \<^verbatim>\<open>evaluate\<close>, up to the first-order term
  \<open>data_tmp\<close> that is added to \<open>data\<close>.  With \<open>kx = None\<close> the test \<^verbatim>\<open>kx != 0\<close> holds and
  \<^verbatim>\<open>kx-1\<close> raises \<open>TypeError\<close>.
\<close>

definition ext_term ::
  "compute_jac \<Rightarrow> real list list \<Rightarrow> int option \<Rightarrow> real list list \<Rightarrow> real list list \<Rightarrow> nat
     \<Rightarrow> error + (vec \<times> nat list \<times> nat list)" where
  "ext_term cj x kx dx isexternal ix =
     rbind (cj kx (ix + 1) x) (\<lambda>(data_tmp, rows, cols).
     rbind (np_col dx ix) (\<lambda>dx_ix.
     rbind (np_inplace (*) data_tmp dx_ix) (\<lambda>data_tmp.
     rbind (if kx \<noteq> Some 0
            then (case kx of
                    None \<Rightarrow> Inl TypeError
                  | Some k \<Rightarrow>
                      rbind (np_col_int isexternal (k - 1)) (\<lambda>e.
                      np_inplace (*) data_tmp (map (\<lambda>v. 1 - v) e)))
            else Inr data_tmp) (\<lambda>data_tmp.
     Inr (data_tmp, rows, cols)))))"

fun extrapolate_loop ::
  "compute_jac \<Rightarrow> real list list \<Rightarrow> int option \<Rightarrow> real list list \<Rightarrow> real list list \<Rightarrow> nat list
     \<Rightarrow> vec \<times> nat list \<times> nat list \<Rightarrow> error + (vec \<times> nat list \<times> nat list)" where
  "extrapolate_loop cj x kx dx isexternal [] acc = Inr acc"
| "extrapolate_loop cj x kx dx isexternal (ix # ixs) acc =
     (case acc of (data, rows, cols) \<Rightarrow>
     rbind (ext_term cj x kx dx isexternal ix) (\<lambda>(data_tmp, rows', cols').
     rbind (np_inplace (+) data data_tmp) (\<lambda>data'.
     extrapolate_loop cj x kx dx isexternal ixs (data', rows', cols'))))"

text \<open>
  \<^verbatim>\<open>mtx.dot(self.sol)\<close>: the sparse matrix times the dense coefficient array; the
  result is given as its list of rows, one for each query point.
\<close>

definition sp_dot_dense :: "spmat \<Rightarrow> vec list \<Rightarrow> error + real list list" where
  "sp_dot_dense A cols =
     rbind (rmap (sp_matvec A) cols) (\<lambda>ys.
     Inr (map (\<lambda>i. map (\<lambda>c. c ! i) ys) [0..<nrows A]))"

text \<open>\<^verbatim>\<open>evaluate\<close>\<close>

definition evaluate ::
  "compute_jac \<Rightarrow> compute_ext_dist \<Rightarrow> rmt \<Rightarrow> real list list \<Rightarrow> int option \<Rightarrow> error + real list list" where
  "evaluate cj ced self x kx =
     (let n = length x in
      rbind (attr (self_num self)) (\<lambda>num.
      let opts = self_options self in
      rbind (cj kx 0 x) (\<lambda>triplets.
      rbind (if extrapolate opts
             then (let ndx = n * num_support num in
                   rbind (ced (num_x num) n ndx (xlimits opts) x) (\<lambda>dx.
                   extrapolate_loop cj x kx dx (isexternal_of dx) [0..<num_x num] triplets))
             else Inr triplets) (\<lambda>(data, rows, cols).
      rbind (csc_matrix data rows cols (n, num_coeff num)) (\<lambda>mtx.
      rbind (attr (self_sol self)) (\<lambda>sol.
      sp_dot_dense mtx sol))))))"

section \<open>The data of a fit and what is observed of it\<close>

text \<open>
  The training set together with the Jacobians that \<^verbatim>\<open>_compute_approx_terms\<close> has built
  for it: for every derivative order the Jacobian, the input points and the targets.
  \<open>tp_of\<close> is the training set, \<open>jd_of\<close> the Jacobian dictionary with the transposes, and
  \<open>terms_at y\<close> the Jacobian and target vector of every order for output column \<open>y\<close>.
\<close>

type_synonym fit_data = "(int \<times> spmat \<times> real list list \<times> real list list) list"

definition tp_of :: "fit_data \<Rightarrow> training_pts" where
  "tp_of fd = map (\<lambda>(kx, J, xt, yt). (kx, (xt, yt))) fd"

definition jd_of :: "fit_data \<Rightarrow> jac_dict" where
  "jd_of fd = map (\<lambda>(kx, J, xt, yt). (kx, (J, sp_transpose J))) fd"

definition terms_at :: "fit_data \<Rightarrow> nat \<Rightarrow> approx_terms" where
  "terms_at fd y = map (\<lambda>(kx, J, xt, yt). (kx, J, map (\<lambda>row. row ! y) yt)) fd"

definition fit_data_ok :: "num_rec \<Rightarrow> spmat \<Rightarrow> fit_data \<Rightarrow> bool" where
  "fit_data_ok num H fd =
     (distinct (map fst fd) \<and> nrows H = num_dof num \<and> ncols H = num_dof num
      \<and> list_all (\<lambda>(kx, J, xt, yt). sp_wf J \<and> ncols J = num_dof num \<and> length yt = nrows J
                     \<and> list_all (\<lambda>row. length row = num_y num) yt) fd)"

text \<open>
  The action of the matrix \<open>H + \<Sum>\<^sub>k Jac\<^sub>k\<^sup>T Jac\<^sub>k\<close> of the specification on a vector.
\<close>

definition gauss_newton_action :: "spmat \<Rightarrow> spmat list \<Rightarrow> vec \<Rightarrow> vec" where
  "gauss_newton_action H Js v =
     vec_add (mat_vec H v)
       (vec_sum (length v) (map (\<lambda>J. mat_vec (sp_transpose J) (mat_vec J v)) Js))"

text \<open>
  Read off a run: the number of passes through the Newton loop (one line search
  each), the gradient norms reported after a pass (the lines for \<open>itn > 0\<close>), and the
  iterates that the line search returned and that were stored in the column.
\<close>

fun newton_passes :: "event list \<Rightarrow> nat" where
  "newton_passes [] = 0"
| "newton_passes (LineSearch x d a r # evs) = Suc (newton_passes evs)"
| "newton_passes (e # evs) = newton_passes evs"

fun pass_norms :: "event list \<Rightarrow> real list" where
  "pass_norms [] = []"
| "pass_norms (Printed itn iy nrm fval # evs) =
     (if itn > 0 then nrm # pass_norms evs else pass_norms evs)"
| "pass_norms (e # evs) = pass_norms evs"

fun accepted :: "event list \<Rightarrow> vec list" where
  "accepted [] = []"
| "accepted (LineSearch x d a (Inr r) # evs) = r # accepted evs"
| "accepted (e # evs) = accepted evs"

fun solver_calls :: "event list \<Rightarrow> nat" where
  "solver_calls [] = 0"
| "solver_calls (SolverSolve b s i r # evs) = Suc (solver_calls evs)"
| "solver_calls (SolverInitialize m # evs) = Suc (solver_calls evs)"
| "solver_calls (e # evs) = solver_calls evs"

text \<open>
  The collaborators return: the solver can be initialized with every system and
  overwrites an output array that has the length of the right-hand side; the line
  search returns a point of the length of the current one.
\<close>

definition collaborators_return :: "collaborators \<Rightarrow> bool" where
  "collaborators_return co =
     ((\<forall>m. solver_initialize co m = Inr ())
      \<and> (\<forall>m b s i. length b = length s \<longrightarrow> (\<exists>r. solver_solve co m b s i = Inr r \<and> length r = length s))
      \<and> (\<forall>x d f g a. length d = length x \<longrightarrow> (\<exists>r. line_search co x d f g a = Inr r \<and> length r = length x)))"


section \<open>Concrete inputs\<close>

definition tp0 :: training_pts where "tp0 = [(0, ([[1/2]], [[1]]))]"
definition J0 :: spmat where "J0 = \<lparr>nrows = 1, ncols = 1, entries = [(0, 0, 2)]\<rparr>"
definition H0 :: spmat where "H0 = \<lparr>nrows = 1, ncols = 1, entries = [(0, 0, 1)]\<rparr>"

text \<open>
  An assembler with one coefficient whose basis function has the value and all
  derivatives \<open>1\<close> at the points it is asked about: one entry for every point.
\<close>

definition cj_const :: compute_jac where
  "cj_const kx ix x = Inr (replicate (length x) 1, [0..<length x], replicate (length x) 0)"

text \<open>
  Modelled from the spec: \<^verbatim>\<open>RMTSlib.compute_ext_dist\<close> (a compiled routine that is not
  part of the sources) gives, for each query point, the signed offset vector from the
  nearest point of the closed domain, the zero vector for a point inside; the row of
  a point is repeated once for each of its \<open>ndx / n\<close> Jacobian entries.
\<close>

definition ext_dist :: compute_ext_dist where
  "ext_dist nx n ndx xl x =
     Inr (concat (map (\<lambda>pt. replicate (ndx div n)
            (map2 (\<lambda>(lo, hi) v. if v < lo then v - lo else if v > hi then v - hi else 0) xl pt)) x))"

definition opts3 :: sm_options where
  "opts3 = \<lparr>xlimits = [(0, 1), (0, 1), (0, 1)], reg_dv = 1, extrapolate = True, approx_norm = 4,
            use_mtx_free = False, max_nln_iter = 10\<rparr>"

definition num3 :: num_rec where
  "num3 = \<lparr>num_x = 3, num_y = 1, num_coeff = 1, num_support = 1, num_dof = 1\<rparr>"

definition rmt_unfitted :: rmt where
  "rmt_unfitted = \<lparr>self_options = opts3, self_training_pts = [], self_num = None, self_sol = None\<rparr>"

definition rmt_fitted :: rmt where
  "rmt_fitted = \<lparr>self_options = opts3, self_training_pts = [], self_num = Some num3, self_sol = Some [[5]]\<rparr>"

text \<open>Two query points: the first on the boundary of the domain, the second outside.\<close>

definition x_two :: "real list list" where
  "x_two = [[1, 1/2, 0], [2, 1/2, 0]]"

text \<open>
  A fit with one coefficient and one training value.  The solver divides by the single
  entry of the system, which it reads off by applying the system to the unit vector,
  and leaves the output array as it is when it cannot do so (as an iterative solver
  that makes no progress does); the line search accepts the step it is offered.
\<close>

definition solve_1x1 :: "linop \<Rightarrow> vec \<Rightarrow> vec \<Rightarrow> nat \<Rightarrow> error + vec" where
  "solve_1x1 m b s i =
     (case apply_linop m [1] of
        Inr [a] \<Rightarrow> (if a = 0 \<or> length b \<noteq> length s then Inr s else Inr (map (\<lambda>bi. bi / a) b))
      | _ \<Rightarrow> Inr s)"

definition co1 :: collaborators where
  "co1 = \<lparr>solver_initialize = (\<lambda>m. Inr ()),
          solver_solve = solve_1x1,
          line_search = (\<lambda>x d f g a. Inr (map2 (\<lambda>xi di. xi + a * di) x d))\<rparr>"

definition num1 :: num_rec where
  "num1 = \<lparr>num_x = 1, num_y = 1, num_coeff = 1, num_support = 1, num_dof = 1\<rparr>"

definition opts1 :: "int \<Rightarrow> int \<Rightarrow> sm_options" where
  "opts1 p iters = \<lparr>xlimits = [(0, 1)], reg_dv = 1, extrapolate = False, approx_norm = p,
                    use_mtx_free = False, max_nln_iter = iters\<rparr>"

definition fd1 :: fit_data where
  "fd1 = [(0, J0, [[1/2]], [[1]])]"



section \<open>Sparse matrix algebra\<close>

lemma rbind_Inr_iff: "rbind m f = Inr y \<longleftrightarrow> (\<exists>x. m = Inr x \<and> f x = Inr y)"
  by (cases m) auto

lemma length_mat_vec [simp]: "length (mat_vec A v) = nrows A"
  by (simp add: mat_vec_def)

lemma nrows_sp_scale [simp]: "nrows (sp_scale c A) = nrows A"
  and ncols_sp_scale [simp]: "ncols (sp_scale c A) = ncols A"
  by (simp_all add: sp_scale_def)

lemma sp_row_dot_Nil [simp]: "sp_row_dot [] v i = 0"
  by (simp add: sp_row_dot_def)

lemma sp_row_dot_Cons [simp]:
  "sp_row_dot ((r, c, a) # es) v i = (if r = i then a * v ! c else 0) + sp_row_dot es v i"
  by (simp add: sp_row_dot_def)

lemma sp_row_dot_append: "sp_row_dot (es @ fs) v i = sp_row_dot es v i + sp_row_dot fs v i"
  by (simp add: sp_row_dot_def)

lemma sp_row_dot_scale:
  "sp_row_dot (map (\<lambda>(r, c, a). (r, c, s * a)) es) v i = s * sp_row_dot es v i"
  by (induction es) (auto simp: algebra_simps)

lemma sp_row_dot_pair:
  "sp_row_dot (map (\<lambda>(j', k, b). (i', k, a * b)) (filter (\<lambda>(j', k, b). j' = j) B)) v i
     = (if i' = i then a * sp_row_dot B v j else 0)"
  by (induction B) (auto simp: algebra_simps)

lemma sp_row_dot_matmul:
  assumes "list_all (\<lambda>(r, c, a). c < n) A"
  shows "sp_row_dot (concat (map (\<lambda>(i, j, a).
                        map (\<lambda>(j', k, b). (i, k, a * b)) (filter (\<lambda>(j', k, b). j' = j) B)) A)) v i
         = sp_row_dot A (map (sp_row_dot B v) [0..<n]) i"
  using assms
  by (induction A) (auto simp: sp_row_dot_append sp_row_dot_pair)

lemma sp_row_dot_diag:
  "sp_row_dot (map (\<lambda>i. (i, i, d ! i)) [0..<n]) w j = (if j < n then d ! j * w ! j else 0)"
  by (induction n) (auto simp: sp_row_dot_append)


lemma matmul_cols:
  assumes "list_all (\<lambda>(r, c, a). c < n) B"
  shows "list_all (\<lambda>(r, c, a). c < n)
           (concat (map (\<lambda>(i, j, a).
              map (\<lambda>(j', k, b). (i, k, a * b)) (filter (\<lambda>(j', k, b). j' = j) B)) A))"
  using assms by (auto simp: list_all_iff)

lemma diag_cols: "list_all (\<lambda>(r, c, a). c < length d) (map (\<lambda>i. (i, i, d ! i)) [0..<length d])"
  by (auto simp: list_all_iff)

lemma map_diag_row:
  assumes "length w = length d"
  shows "map (sp_row_dot (map (\<lambda>i. (i, i, d ! i)) [0..<length d]) w) [0..<length d] = map2 (*) d w"
  using assms by (auto simp: sp_row_dot_diag intro!: nth_equalityI)

lemma scale_cols:
  "list_all (\<lambda>(r, c, a). c < n) es \<Longrightarrow> list_all (\<lambda>(r, c, a). c < n) (map (\<lambda>(r, c, a). (r, c, s * a)) es)"
  by (auto simp: list_all_iff)

lemma sp_wf_cols: "sp_wf A \<Longrightarrow> list_all (\<lambda>(r, c, a). c < ncols A) (entries A)"
  by (auto simp: sp_wf_def list_all_iff)

lemma hess_term:
  assumes wf: "sp_wf JT" and s1: "ncols JT = nrows J" and s2: "length d = nrows J"
  shows "\<exists>m m'. sp_matmul (sp_scale c JT) (sp_diags d) = Inr m \<and> sp_matmul m J = Inr m'
           \<and> nrows m' = nrows JT \<and> ncols m' = ncols J
           \<and> (\<forall>i. sp_row_dot (entries m') v i
                  = sp_row_dot (entries (sp_scale c JT))
                      (map2 (*) d (mat_vec J v)) i)"
proof -
  let ?D = "map (\<lambda>i. (i, i, d ! i)) [0..<length d]"
  let ?S = "map (\<lambda>(r, c, a). (r, c, c * a)) (entries JT)"
  define S where "S = entries (sp_scale c JT)"
  define M where "M = concat (map (\<lambda>(i, j, a).
              map (\<lambda>(j', k, b). (i, k, a * b)) (filter (\<lambda>(j', k, b). j' = j) ?D)) S)"
  define M' where "M' = concat (map (\<lambda>(i, j, a).
              map (\<lambda>(j', k, b). (i, k, a * b)) (filter (\<lambda>(j', k, b). j' = j) (entries J))) M)"
  define w where "w = mat_vec J v"
  have e1: "sp_matmul (sp_scale c JT) (sp_diags d)
            = Inr \<lparr>nrows = nrows JT, ncols = length d, entries = M\<rparr>"
    using s1 s2 by (simp add: sp_matmul_def sp_scale_def sp_diags_def M_def S_def)
  have e2: "sp_matmul \<lparr>nrows = nrows JT, ncols = length d, entries = M\<rparr> J
            = Inr \<lparr>nrows = nrows JT, ncols = ncols J, entries = M'\<rparr>"
    using s2 by (simp add: sp_matmul_def M'_def)
  have cM: "list_all (\<lambda>(r, c, a). c < nrows J) M"
    unfolding M_def using diag_cols [of d] s2 by (intro matmul_cols) simp
  have cS: "list_all (\<lambda>(r, c, a). c < length d) S"
    unfolding S_def sp_scale_def using sp_wf_cols [OF wf] s1 s2
    by (auto simp: list_all_iff)
  have lw: "length w = length d" by (simp add: w_def s2 mat_vec_def)
  have r: "sp_row_dot M' v i = sp_row_dot S (map2 (*) d w) i" for i
  proof -
    have "sp_row_dot M' v i = sp_row_dot M w i"
      unfolding M'_def w_def mat_vec_def by (rule sp_row_dot_matmul [OF cM])
    also have "\<dots> = sp_row_dot S (map (sp_row_dot ?D w) [0..<length d]) i"
      unfolding M_def by (rule sp_row_dot_matmul [OF cS])
    also have "map (sp_row_dot ?D w) [0..<length d] = map2 (*) d w"
      by (rule map_diag_row [OF lw])
    finally show ?thesis .
  qed
  show ?thesis
    using e1 e2 r by (auto simp: S_def w_def)
qed

section \<open>The two Hessian variants\<close>

lemma term_okD:
  assumes "term_ok dof jd yd kx"
  obtains J JT yt where "lookup jd kx = Inr (J, JT)" "lookup yd kx = Inr yt"
    "map_of jd kx = Some (J, JT)" "map_of yd kx = Some yt"
    "sp_wf J" "sp_wf JT" "ncols J = dof" "nrows JT = dof" "ncols JT = nrows J" "length yt = nrows J"
  using assms by (auto simp: term_ok_def lookup_def split: option.splits prod.splits)

lemma op_diag_vec_ok:
  assumes "list_all (term_ok dof jd yd) ks" and "length sol = dof"
  shows "\<exists>dv'. op_diag_vec sol p jd yd ks dv = Inr dv'
           \<and> (\<forall>k. map_of dv' k = (if k \<in> set ks then Some (diag_vec_of sol p jd yd k) else map_of dv k))"
  using assms
proof (induction ks arbitrary: dv)
  case Nil
  then show ?case by simp
next
  case (Cons kx ks)
  from Cons.prems have t: "term_ok dof jd yd kx" and r: "list_all (term_ok dof jd yd) ks" by simp_all
  from t obtain J JT yt where l: "lookup jd kx = Inr (J, JT)" "lookup yd kx = Inr yt"
    "map_of jd kx = Some (J, JT)" "map_of yd kx = Some yt"
    and s: "ncols J = dof" "length yt = nrows J"
    by (rule term_okD)
  let ?d = "diag_vec_of sol p jd yd kx"
  have step: "op_diag_vec sol p jd yd (kx # ks) dv = op_diag_vec sol p jd yd ks (AList.update kx ?d dv)"
    using l s Cons.prems(2) by (simp add: sp_matvec_def np_bin_def diag_vec_of_def mat_vec_def)
  from Cons.IH [OF r Cons.prems(2), of "AList.update kx ?d dv"]
  obtain dv' where "op_diag_vec sol p jd yd ks (AList.update kx ?d dv) = Inr dv'"
    and m: "\<forall>k. map_of dv' k = (if k \<in> set ks then Some (diag_vec_of sol p jd yd k)
                                 else map_of (AList.update kx ?d dv) k)"
    by blast
  then show ?case
    using step by (auto simp: update_conv')
qed

lemma hess_loops:
  assumes ok: "list_all (term_ok dof jd yd) ks"
      and dv: "\<forall>kx\<in>set ks. lookup dv kx = Inr (diag_vec_of sol p jd yd kx)"
      and lo: "length other = dof" and ls: "length sol = dof"
      and hv: "sp_matvec hess other = Inr v" and nr: "nrows hess = dof" and nc: "ncols hess = dof"
  shows "\<exists>M w. opt_hess_mtx_loop sol p jd yd ks hess = Inr M \<and> nrows M = dof \<and> ncols M = dof
           \<and> op_dot_loop jd dv other ks v = Inr w \<and> sp_matvec M other = Inr w"
  using ok dv hv nr nc
proof (induction ks arbitrary: hess v)
  case Nil
  then show ?case by simp
next
  case (Cons kx ks)
  from Cons.prems have t: "term_ok dof jd yd kx" and r: "list_all (term_ok dof jd yd) ks" by simp_all
  from t obtain J JT yt where l: "lookup jd kx = Inr (J, JT)" "lookup yd kx = Inr yt"
    "map_of jd kx = Some (J, JT)" "map_of yd kx = Some yt"
    and wf: "sp_wf JT"
    and s: "ncols J = dof" "nrows JT = dof" "ncols JT = nrows J" "length yt = nrows J"
    by (rule term_okD)
  define d where "d = diag_vec_of sol p jd yd kx"
  define js where "js = mat_vec J sol"
  define jo where "jo = mat_vec J other"
  have d_eq: "d = np_scale (real_of_int (p * (p - 1))) (np_pow (map2 (-) js yt) (p - 2))"
    using l by (simp add: d_def diag_vec_of_def js_def)
  have ld: "length d = nrows J"
    using s by (simp add: d_eq np_scale_def np_pow_def js_def mat_vec_def)
  from hess_term [OF wf s(3) ld, of "0.5" other]
  obtain m m' where m: "sp_matmul (sp_scale 0.5 JT) (sp_diags d) = Inr m" "sp_matmul m J = Inr m'"
    "nrows m' = nrows JT" "ncols m' = ncols J"
    and rd: "\<And>i. sp_row_dot (entries m') other i
                = sp_row_dot (entries (sp_scale 0.5 JT)) (map2 (*) d jo) i"
    unfolding jo_def by blast
  define t where "t = mat_vec (sp_scale 0.5 JT) (map2 (*) d jo)"
  define hess' where "hess' = hess\<lparr>entries := entries hess @ entries m'\<rparr>"
  define v' where "v' = map2 (+) v t"
  have v_eq: "v = mat_vec hess other"
    using Cons.prems(3) lo Cons.prems(4,5) by (simp add: sp_matvec_def)
  have mtx_step: "opt_hess_mtx_loop sol p jd yd (kx # ks) hess = opt_hess_mtx_loop sol p jd yd ks hess'"
    using l s ls m Cons.prems(4,5)
    by (simp add: sp_matvec_def np_bin_def d_eq js_def sp_iadd_def hess'_def mat_vec_def)
  have dvk: "lookup dv kx = Inr d"
    using Cons.prems(2) by (simp add: d_def)
  have op_step: "op_dot_loop jd dv other (kx # ks) v = op_dot_loop jd dv other ks v'"
    using l s lo dvk ld v_eq Cons.prems(4)
    by (simp add: sp_matvec_def np_bin_def np_inplace_def jo_def t_def v'_def)
  have hv': "sp_matvec hess' other = Inr v'"
    using lo Cons.prems(4,5) rd s(2)
    by (auto simp: sp_matvec_def hess'_def v'_def v_eq t_def mat_vec_def sp_scale_def sp_row_dot_append intro!: nth_equalityI)
  have "\<exists>M w. opt_hess_mtx_loop sol p jd yd ks hess' = Inr M \<and> nrows M = dof \<and> ncols M = dof
           \<and> op_dot_loop jd dv other ks v' = Inr w \<and> sp_matvec M other = Inr w"
    using r Cons.prems(2) hv' Cons.prems(4,5)
    by (intro Cons.IH) (simp_all add: hess'_def)
  then show ?case
    using mtx_step op_step by simp
qed


text \<open>
  Claim C7.  Under the shape conditions, the matrix-free operator returned by
  \<open>opt_hess\<close> when \<open>use_mtx_free\<close> is set and the explicit sparse matrix returned
  otherwise are both built without error and have the same matrix-vector product on
  every vector \<open>v\<close> (both refuse a vector of the wrong length).
\<close>

theorem opt_hess_mtx_free_same_action:
  assumes ok: "system_ok tp full_hess jd yd (length sol)"
  shows "\<exists>A B. opt_hess True tp sol p full_hess jd yd = Inr A
             \<and> opt_hess False tp sol p full_hess jd yd = Inr B
             \<and> (\<forall>v. apply_linop A v = apply_linop B v)"
proof -
  let ?dof = "length sol"
  from ok have k: "keys jd = keys tp" and nr: "nrows full_hess = ?dof" and nc: "ncols full_hess = ?dof"
    and t: "list_all (term_ok ?dof jd yd) (keys tp)"
    by (simp_all add: system_ok_def)
  from op_diag_vec_ok [OF t refl, of p "[]"]
  obtain dv where dv: "op_diag_vec sol p jd yd (keys tp) [] = Inr dv"
    and m: "\<forall>k. map_of dv k = (if k \<in> set (keys tp) then Some (diag_vec_of sol p jd yd k) else None)"
    by auto
  have lk: "\<forall>kx\<in>set (keys tp). lookup dv kx = Inr (diag_vec_of sol p jd yd kx)"
    using m by (simp add: lookup_def)
  have A: "opt_hess True tp sol p full_hess jd yd
           = Inr (Op (nrows full_hess, ncols full_hess) (op_dot full_hess jd dv))"
    using dv k by (simp add: opt_hess_def opt_hess_op_def)
  have z: "sp_matvec full_hess (np_zeros ?dof) = Inr (mat_vec full_hess (np_zeros ?dof))"
    using nc by (simp add: sp_matvec_def np_zeros_def)
  from hess_loops [OF t lk _ refl z nr nc]
  obtain M where M: "opt_hess_mtx_loop sol p jd yd (keys tp) full_hess = Inr M"
    and sM: "nrows M = ?dof" "ncols M = ?dof"
    by (auto simp: np_zeros_def)
  have B: "opt_hess False tp sol p full_hess jd yd = Inr (Mtx M)"
    using M by (simp add: opt_hess_def opt_hess_mtx_def)
  have "apply_linop (Op (nrows full_hess, ncols full_hess) (op_dot full_hess jd dv)) v
        = apply_linop (Mtx M) v" for v
  proof (cases "length v = ?dof")
    case True
    have hv: "sp_matvec full_hess v = Inr (mat_vec full_hess v)"
      using nc True by (simp add: sp_matvec_def)
    from hess_loops [OF t lk True refl hv nr nc] M
    obtain w where "op_dot_loop jd dv v (keys tp) (mat_vec full_hess v) = Inr w" "sp_matvec M v = Inr w"
      by auto
    then show ?thesis
      using True nc hv k by (simp add: op_dot_def)
  next
    case False
    then show ?thesis
      using nc sM by (simp add: sp_matvec_def)
  qed
  then show ?thesis
    using A B by blast
qed

theorem opt_hess_mtx_free_same_action_witness: "system_ok tp0 H0 [(0, (J0, sp_transpose J0))] [(0, [1])] (length [3::real])
   \<and> (\<exists>A B. opt_hess True tp0 [3] 4 H0 [(0, (J0, sp_transpose J0))] [(0, [1])] = Inr A
             \<and> opt_hess False tp0 [3] 4 H0 [(0, (J0, sp_transpose J0))] [(0, [1])] = Inr B
             \<and> (\<forall>v. apply_linop A v = apply_linop B v))"
proof -
  have h: "system_ok tp0 H0 [(0, (J0, sp_transpose J0))] [(0, [1])] (length [3::real])"
    by (simp add: system_ok_def term_ok_def keys_def tp0_def H0_def J0_def sp_transpose_def sp_wf_def)
  show ?thesis
    using h opt_hess_mtx_free_same_action [OF h, of 4] by simp
qed

section \<open>The gradient\<close>

lemma mat_vec_scale: "mat_vec (sp_scale c A) v = np_scale c (mat_vec A v)"
  by (simp add: mat_vec_def sp_scale_def np_scale_def sp_row_dot_scale)

lemma nrows_sp_transpose [simp]: "nrows (sp_transpose A) = ncols A"
  and ncols_sp_transpose [simp]: "ncols (sp_transpose A) = nrows A"
  by (simp_all add: sp_transpose_def)

lemma length_vec_sum:
  "\<forall>v\<in>set vs. length v = n \<Longrightarrow> length (vec_sum n vs) = n"
  by (induction vs) (simp_all add: vec_sum_def vec_add_def)

lemma vec_sum_Cons: "vec_sum n (v # vs) = vec_add v (vec_sum n vs)"
  by (simp add: vec_sum_def)

lemma grad_accumulate:
  assumes "length g = n" "length u = n" "length S = n"
  shows "vec_add (map2 (+) g (np_scale p (np_scale (1/2) u))) (np_scale (1/2 * p) S)
         = vec_add g (np_scale (1/2 * p) (vec_add u S))"
  using assms
  by (auto simp: vec_add_def np_scale_def algebra_simps intro!: nth_equalityI)

lemma vec_add_zero:
  assumes "length g = n"
  shows "vec_add g (np_scale c (replicate n 0)) = g"
  using assms by (auto simp: vec_add_def np_scale_def intro!: nth_equalityI)

lemma opt_grad_loop_formula:
  assumes "\<forall>(kx, J, y)\<in>set ts. lookup jd kx = Inr (J, sp_transpose J) \<and> lookup yd kx = Inr y
             \<and> ncols J = length sol \<and> length y = nrows J"
      and "length g = length sol"
  shows "opt_grad_loop sol p jd yd (map fst ts) g
         = Inr (vec_add g (np_scale (1/2 * real_of_int p)
                  (vec_sum (length sol)
                     (map (\<lambda>(J, y). mat_vec (sp_transpose J) (np_pow (map2 (-) (mat_vec J sol) y) (p - 1)))
                          (map snd ts)))))"
  using assms
proof (induction ts arbitrary: g)
  case Nil
  then show ?case by (simp add: vec_sum_def vec_add_zero)
next
  case (Cons t ts)
  obtain kx J y where t: "t = (kx, J, y)" by (cases t)
  from Cons.prems t have l: "lookup jd kx = Inr (J, sp_transpose J)" "lookup yd kx = Inr y"
    and s: "ncols J = length sol" "length y = nrows J" by auto
  let ?tm = "\<lambda>(J, y). mat_vec (sp_transpose J) (np_pow (map2 (-) (mat_vec J sol) y) (p - 1))"
  define u where "u = ?tm (J, y)"
  define S where "S = vec_sum (length sol) (map ?tm (map snd ts))"
  define g' where "g' = map2 (+) g (np_scale (real_of_int p) (np_scale (1/2) u))"
  have lu: "length u = length sol" using s by (simp add: u_def)
  have lS: "length S = length sol"
    unfolding S_def using Cons.prems(1) by (intro length_vec_sum) auto
  have lg': "length g' = length sol"
    using Cons.prems(2) lu by (simp add: g'_def np_scale_def)
  have step: "opt_grad_loop sol p jd yd (map fst (t # ts)) g = opt_grad_loop sol p jd yd (map fst ts) g'"
    using l s t Cons.prems(2)
    by (simp add: sp_matvec_def np_bin_def np_inplace_def np_pow_def mat_vec_scale g'_def u_def
                  np_scale_def)
  have "opt_grad_loop sol p jd yd (map fst ts) g' = Inr (vec_add g' (np_scale (1/2 * real_of_int p) S))"
    unfolding S_def using Cons.prems(1) lg' by (intro Cons.IH) auto
  also have "vec_add g' (np_scale (1/2 * real_of_int p) S)
             = vec_add g (np_scale (1/2 * real_of_int p) (vec_add u S))"
    unfolding g'_def by (rule grad_accumulate [OF Cons.prems(2) lu lS])
  finally show ?case
    using step t by (simp add: vec_sum_Cons u_def S_def)
qed

lemma lookup_jac_dict_of:
  assumes "distinct (map fst terms)" "(kx, J, y) \<in> set terms"
  shows "lookup (jac_dict_of terms) kx = Inr (J, sp_transpose J)"
proof -
  have "map fst (jac_dict_of terms) = map fst terms"
    by (auto simp: jac_dict_of_def)
  moreover have "(kx, (J, sp_transpose J)) \<in> set (jac_dict_of terms)"
    using assms(2) by (force simp: jac_dict_of_def)
  ultimately have "map_of (jac_dict_of terms) kx = Some (J, sp_transpose J)"
    using assms(1) by (intro map_of_is_SomeI) simp_all
  then show ?thesis by (simp add: lookup_def)
qed

lemma lookup_yt_dict_of:
  assumes "distinct (map fst terms)" "(kx, J, y) \<in> set terms"
  shows "lookup (yt_dict_of terms) kx = Inr y"
proof -
  have "map fst (yt_dict_of terms) = map fst terms"
    by (auto simp: yt_dict_of_def)
  moreover have "(kx, y) \<in> set (yt_dict_of terms)"
    using assms(2) by (force simp: yt_dict_of_def)
  ultimately have "map_of (yt_dict_of terms) kx = Some y"
    using assms(1) by (intro map_of_is_SomeI) simp_all
  then show ?thesis by (simp add: lookup_def)
qed

lemma np_linalg_norm_euclid: "np_linalg_norm g = euclid_norm g"
  by (simp add: np_linalg_norm_def euclid_norm_def power2_eq_square)

lemma opt_grad_eq_formula:
  assumes ok: "terms_ok (length sol) terms" and k: "keys tp = map fst terms"
      and H: "ncols H = length sol" "nrows H = length sol"
  shows "opt_grad tp sol p H (jac_dict_of terms) (yt_dict_of terms)
         = Inr (grad_formula H (map snd terms) sol p)"
proof -
  have d: "distinct (map fst terms)" using ok by (simp add: terms_ok_def)
  have "\<forall>(kx, J, y)\<in>set terms.
          lookup (jac_dict_of terms) kx = Inr (J, sp_transpose J) \<and> lookup (yt_dict_of terms) kx = Inr y
          \<and> ncols J = length sol \<and> length y = nrows J"
    using ok lookup_jac_dict_of [OF d] lookup_yt_dict_of [OF d]
    by (auto simp: terms_ok_def list_all_iff)
  from opt_grad_loop_formula [OF this, of "mat_vec H sol" p] H
  show ?thesis
    by (simp add: opt_grad_def sp_matvec_def k grad_formula_def)
qed

text \<open>
  Claim C4.  For every coefficient vector, exponent, regularization Hessian,
  Jacobian set and target set of matching shapes, \<open>opt_grad\<close> returns the vector
  \<open>H sol + 0.5 p \<Sum>\<^sub>k Jac\<^sub>k\<^sup>T (Jac\<^sub>k sol - target\<^sub>k)\<^bsup>p-1\<^esup>\<close>, and \<open>opt_norm\<close> returns the
  Euclidean norm of that vector.
\<close>

theorem opt_grad_and_norm_formula:
  assumes "terms_ok (length sol) terms" and "keys tp = map fst terms"
      and "ncols H = length sol" and "nrows H = length sol"
  shows "opt_grad tp sol p H (jac_dict_of terms) (yt_dict_of terms)
           = Inr (grad_formula H (map snd terms) sol p)
       \<and> opt_norm tp sol p H (jac_dict_of terms) (yt_dict_of terms)
           = Inr (euclid_norm (grad_formula H (map snd terms) sol p))"
  using opt_grad_eq_formula [OF assms]
  by (simp add: opt_norm_def np_linalg_norm_euclid)

theorem opt_grad_and_norm_formula_witness:
  "terms_ok (length [3::real]) [(0, J0, [1])] \<and> keys tp0 = map fst [(0::int, J0, [1::real])]
   \<and> ncols H0 = length [3::real] \<and> nrows H0 = length [3::real]
   \<and> opt_grad tp0 [3] 4 H0 (jac_dict_of [(0, J0, [1])]) (yt_dict_of [(0, J0, [1])])
       = Inr (grad_formula H0 (map snd [(0::int, J0, [1])]) [3] 4)
   \<and> opt_norm tp0 [3] 4 H0 (jac_dict_of [(0, J0, [1])]) (yt_dict_of [(0, J0, [1])])
       = Inr (euclid_norm (grad_formula H0 (map snd [(0::int, J0, [1])]) [3] 4))
   \<and> grad_formula H0 (map snd [(0::int, J0, [1])]) [3] 4 = [503]"
proof -
  have a: "terms_ok (length [3::real]) [(0, J0, [1])]"
    by (simp add: terms_ok_def J0_def)
  have b: "keys tp0 = map fst [(0::int, J0, [1::real])]"
    by (simp add: keys_def tp0_def)
  have c: "ncols H0 = length [3::real]" "nrows H0 = length [3::real]"
    by (simp_all add: H0_def)
  have v: "grad_formula H0 (map snd [(0::int, J0, [1])]) [3] 4 = [503]"
    by (simp add: grad_formula_def H0_def J0_def mat_vec_def sp_transpose_def np_pow_def
                  np_scale_def vec_add_def vec_sum_def)
  show ?thesis
    using a b c v opt_grad_and_norm_formula [OF a b c, of 4] by simp
qed

section \<open>The domain check of the approximation terms\<close>


















section \<open>Evaluation before a fit\<close>

lemma evaluate_needs_sol:
  assumes "self_sol self = None"
  shows "evaluate cj ced self x kx \<noteq> Inr y"
  using assms
  by (auto simp: evaluate_def Let_def rbind_Inr_iff attr_def split: prod.splits)

text \<open>
  Claim C8, as amended.  \<open>evaluate\<close> has no check of the fitted state and never raises
  \<open>NotFittedError\<close> itself: on an instance without the sizing dictionary it fails with
  \<open>AttributeError\<close> at the first statement that reads it, for every query array and
  derivative index and before any collaborator is called; on an instance without
  coefficients it never returns a prediction.
\<close>

theorem evaluate_unfitted_fails:
  "(self_num self = None \<longrightarrow> evaluate cj ced self x kx = Inl AttributeError)
   \<and> (self_sol self = None \<longrightarrow> (\<exists>e. evaluate cj ced self x kx = Inl e))"
proof (intro conjI impI)
  assume "self_num self = None"
  then show "evaluate cj ced self x kx = Inl AttributeError"
    by (simp add: evaluate_def attr_def)
next
  assume "self_sol self = None"
  from evaluate_needs_sol [OF this, of cj ced x kx]
  show "\<exists>e. evaluate cj ced self x kx = Inl e"
    by (cases "evaluate cj ced self x kx") auto
qed

theorem evaluate_unfitted_fails_witness:
  "self_num rmt_unfitted = None \<and> self_sol rmt_unfitted = None
   \<and> evaluate cj_const ext_dist rmt_unfitted [[2, 2, 2]] (Some 0) = Inl AttributeError
   \<and> (\<exists>e. evaluate cj_const ext_dist rmt_unfitted [[2, 2, 2]] (Some 0) = Inl e)"
  using evaluate_unfitted_fails [of rmt_unfitted cj_const ext_dist "[[2, 2, 2]]" "Some 0"]
  by (simp add: rmt_unfitted_def)

theorem evaluate_unfitted_counterexample:
  "evaluate cj_const ext_dist rmt_unfitted [[2, 2, 2]] (Some 0) \<noteq> Inl NotFittedError"
  by (simp add: evaluate_def attr_def rmt_unfitted_def)

section \<open>Evaluation with extrapolation and the derivative index \<open>None\<close>\<close>

lemma ext_term_None:
  "ext_term cj x None dx ie ix \<noteq> Inr t"
  by (auto simp: ext_term_def rbind_Inr_iff split: prod.splits)

lemma ext_term_None_reached:
  assumes "cj None (ix + 1) x = Inr (d, rows, cols)" "np_col dx ix = Inr c" "np_inplace (*) d c = Inr d'"
  shows "ext_term cj x None dx ie ix = Inl TypeError"
  using assms by (simp add: ext_term_def)

lemma ext_term_Some_0:
  "ext_term cj x (Some 0) dx ie ix =
     rbind (cj (Some 0) (ix + 1) x) (\<lambda>(data_tmp, rows, cols).
     rbind (np_col dx ix) (\<lambda>dx_ix.
     rbind (np_inplace (*) data_tmp dx_ix) (\<lambda>data_tmp.
     Inr (data_tmp, rows, cols))))"
  by (simp add: ext_term_def)

lemma upt_0_Suc: "0 < n \<Longrightarrow> [0..<n] = 0 # [1..<n]"
  by (simp add: upt_conv_Cons)

text \<open>
  Claim C10.  With extrapolation enabled, a fitted model and at least one input
  dimension, \<open>evaluate\<close> with the derivative index \<open>None\<close> never returns a prediction;
  when the assembler accepts \<open>None\<close> and the offsets have the shape of the Jacobian
  data, the first pass of the loop takes the branch of \<^verbatim>\<open>kx != 0\<close> and fails with
  \<open>TypeError\<close> at \<^verbatim>\<open>kx-1\<close>.  With the index \<open>0\<close> that branch is not taken, and the
  first-order term is the assembler's data scaled by the offsets.
\<close>

theorem evaluate_None_extrapolate_type_error:
  assumes "extrapolate (self_options self)" and "self_num self = Some num" and "0 < num_x num"
  shows "(\<exists>e. evaluate cj ced self x None = Inl e)
       \<and> (\<forall>t dx d rows cols c d'.
            cj None 0 x = Inr t
            \<and> ced (num_x num) (length x) (length x * num_support num) (xlimits (self_options self)) x = Inr dx
            \<and> cj None 1 x = Inr (d, rows, cols) \<and> np_col dx 0 = Inr c \<and> np_inplace (*) d c = Inr d'
            \<longrightarrow> evaluate cj ced self x None = Inl TypeError)
       \<and> (\<forall>dx ie ix. ext_term cj x (Some 0) dx ie ix =
            rbind (cj (Some 0) (ix + 1) x) (\<lambda>(data_tmp, rows, cols).
            rbind (np_col dx ix) (\<lambda>dx_ix.
            rbind (np_inplace (*) data_tmp dx_ix) (\<lambda>data_tmp.
            Inr (data_tmp, rows, cols)))))"
proof (intro conjI allI impI)
  have "evaluate cj ced self x None \<noteq> Inr y" for y
    using assms
    by (auto simp: evaluate_def Let_def rbind_Inr_iff attr_def upt_0_Suc ext_term_None
             split: prod.splits)
  then show "\<exists>e. evaluate cj ced self x None = Inl e"
    by (cases "evaluate cj ced self x None") auto
next
  fix t dx d rows cols c d'
  assume h: "cj None 0 x = Inr t
            \<and> ced (num_x num) (length x) (length x * num_support num) (xlimits (self_options self)) x = Inr dx
            \<and> cj None 1 x = Inr (d, rows, cols) \<and> np_col dx 0 = Inr c \<and> np_inplace (*) d c = Inr d'"
  then have "ext_term cj x None dx (isexternal_of dx) 0 = Inl TypeError"
    by (intro ext_term_None_reached [of cj 0 x d rows cols dx c d']) simp_all
  then show "evaluate cj ced self x None = Inl TypeError"
    using assms h
    by (simp add: evaluate_def Let_def attr_def upt_0_Suc split: prod.splits)
next
  fix dx ie ix
  show "ext_term cj x (Some 0) dx ie ix =
            rbind (cj (Some 0) (ix + 1) x) (\<lambda>(data_tmp, rows, cols).
            rbind (np_col dx ix) (\<lambda>dx_ix.
            rbind (np_inplace (*) data_tmp dx_ix) (\<lambda>data_tmp.
            Inr (data_tmp, rows, cols))))"
    by (rule ext_term_Some_0)
qed

section \<open>The first-order terms of the extrapolation\<close>

lemma np_col_ok:
  assumes "list_all (\<lambda>row. length row = nx) dx" "ix < nx"
  shows "np_col dx ix = Inr (map (\<lambda>row. row ! ix) dx)"
  using assms by (auto simp: np_col_def list_all_iff)

lemma np_col_int_ok:
  assumes "list_all (\<lambda>row. length row = nx) a" "1 \<le> k" "k \<le> int nx"
  shows "np_col_int a (k - 1) = Inr (map (\<lambda>row. row ! nat (k - 1)) a)"
  using assms by (auto simp: np_col_int_def list_all_iff)

lemma isexternal_rows:
  "list_all (\<lambda>row. length row = nx) dx \<Longrightarrow> list_all (\<lambda>row. length row = nx) (isexternal_of dx)"
  by (auto simp: isexternal_of_def list_all_iff)

lemma ext_term_derivative:
  assumes cj: "cj (Some k) (ix + 1) x = Inr (d, rows, cols)"
      and k: "1 \<le> k" "k \<le> int nx"
      and dx: "list_all (\<lambda>row. length row = nx) dx" "length dx = length d"
      and ix: "ix < nx"
  shows "ext_term cj x (Some k) dx (isexternal_of dx) ix
         = Inr (map2 (*) (map2 (*) d (map (\<lambda>row. row ! ix) dx))
                  (map (\<lambda>v. 1 - v) (map (\<lambda>row. row ! nat (k - 1)) (isexternal_of dx))),
                rows, cols)"
proof -
  have "k \<noteq> 0" using k by simp
  moreover have "length (isexternal_of dx) = length dx"
    by (simp add: isexternal_of_def)
  ultimately show ?thesis
    using cj dx np_col_ok [OF dx(1) ix] np_col_int_ok [OF isexternal_rows [OF dx(1)] k]
    by (simp add: ext_term_def np_inplace_def)
qed

text \<open>
  Claim C2, as amended.  When the requested output is the derivative of index \<open>k\<close>
  (counted from 1; the offsets of that dimension are column \<open>k - 1\<close> of \<open>dx\<close>), the
  first-order term of every dimension \<open>ix\<close>, not only that of the dimension of the
  derivative, is zero at the entries whose offset along that dimension is nonzero, and
  is the assembler's data times the offset along \<open>ix\<close> at the other entries.
\<close>

theorem ext_term_zeroed_for_every_dimension:
  assumes "cj (Some k) (ix + 1) x = Inr (d, rows, cols)"
      and "1 \<le> k" and "k \<le> int nx"
      and "list_all (\<lambda>row. length row = nx) dx" and "length dx = length d"
      and "ix < nx"
  shows "\<exists>d'. ext_term cj x (Some k) dx (isexternal_of dx) ix = Inr (d', rows, cols)
            \<and> length d' = length d
            \<and> (\<forall>r<length d. d' ! r = (if dx ! r ! nat (k - 1) \<noteq> 0 then 0 else d ! r * dx ! r ! ix))"
proof -
  have w: "length (dx ! r) = nx" if "r < length d" for r
    using that assms(4,5) by (simp add: list_all_length)
  have j: "nat (k - 1) < nx"
    using assms(2,3) by linarith
  have "isexternal_of dx ! r ! nat (k - 1) = (if dx ! r ! nat (k - 1) \<noteq> 0 then 1 else 0)"
    if "r < length d" for r
    using that w [OF that] j assms(5) by (simp add: isexternal_of_def)
  then show ?thesis
    using assms(5)
    unfolding ext_term_derivative [where cj = cj and k = k and ix = ix and x = x, OF assms]
    by (simp add: isexternal_of_def)
qed

theorem ext_term_zeroed_for_every_dimension_witness:
  "cj_const (Some 1) (2 + 1) [[2, 2, 2]] = Inr ([1], [0], [0])
   \<and> (1::int) \<le> 1 \<and> (1::int) \<le> int 3
   \<and> list_all (\<lambda>row. length row = 3) [[1, 1, 1 :: real]] \<and> length [[1, 1, 1 :: real]] = length [1 :: real]
   \<and> (2::nat) < 3
   \<and> (\<exists>d'. ext_term cj_const [[2, 2, 2]] (Some 1) [[1, 1, 1]] (isexternal_of [[1, 1, 1]]) 2
               = Inr (d', [0], [0])
            \<and> length d' = length [1 :: real]
            \<and> (\<forall>r<length [1 :: real]. d' ! r
                  = (if [[1, 1, 1 :: real]] ! r ! nat (1 - 1) \<noteq> 0 then 0 else [1] ! r * [[1, 1, 1]] ! r ! 2)))"
proof -
  have a: "cj_const (Some 1) (2 + 1) [[2, 2, 2]] = Inr ([1], [0], [0])"
    by (simp add: cj_const_def)
  have b: "list_all (\<lambda>row. length row = 3) [[1, 1, 1 :: real]]" by simp
  have c: "length [[1, 1, 1 :: real]] = length [1 :: real]" by simp
  show ?thesis
    using a b c
      ext_term_zeroed_for_every_dimension
        [where cj = cj_const and k = 1 and ix = 2 and x = "[[2, 2, 2]]" and nx = 3, OF a _ _ b c]
    by simp
qed

text \<open>
  The claim as stated fails for a point outside the domain in all three dimensions
  and the derivative of index 1: the first-order term of the third dimension, which
  is not the dimension of the derivative, is zeroed too.
\<close>

theorem ext_term_other_dimension_counterexample:
  "ext_dist 3 1 1 [(0, 1), (0, 1), (0, 1)] [[2, 2, 2]] = Inr [[1, 1, 1]]
   \<and> ext_term cj_const [[2, 2, 2]] (Some 1) [[1, 1, 1]] (isexternal_of [[1, 1, 1]]) 2
       = Inr ([0], [0], [0])
   \<and> ext_term cj_const [[2, 2, 2]] (Some 0) [[1, 1, 1]] (isexternal_of [[1, 1, 1]]) 2
       = Inr ([1], [0], [0])"
  by (simp add: ext_dist_def ext_term_def cj_const_def np_col_def np_col_int_def np_inplace_def
                isexternal_of_def)

section \<open>Extrapolation at a point with zero offset\<close>

lemma sp_row_dot_zip_cong:
  assumes "length d1 = length d0" "length rows = length d0" "length cols = length d0"
      and "\<forall>r<length d0. rows ! r = i \<longrightarrow> d1 ! r = d0 ! r"
  shows "sp_row_dot (zip rows (zip cols d1)) v i = sp_row_dot (zip rows (zip cols d0)) v i"
proof -
  have "map (\<lambda>(r, c, a). if r = i then a * v ! c else 0) (zip rows (zip cols d1))
        = map (\<lambda>(r, c, a). if r = i then a * v ! c else 0) (zip rows (zip cols d0))"
    using assms by (auto intro!: nth_equalityI)
  then show ?thesis by (simp add: sp_row_dot_def)
qed

lemma ext_term_zero_offset:
  assumes cj: "cj (Some k) (ix + 1) x = Inr (d, rows, cols)" "length d = n"
      and k: "0 \<le> k" "k \<le> int nx"
      and dx: "list_all (\<lambda>row. length row = nx) dx" "length dx = n"
      and ix: "ix < nx"
      and zero: "\<forall>r<n. rows ! r = i \<longrightarrow> (\<forall>j<nx. dx ! r ! j = 0)"
  shows "\<exists>d'. ext_term cj x (Some k) dx (isexternal_of dx) ix = Inr (d', rows, cols)
            \<and> length d' = n \<and> (\<forall>r<n. rows ! r = i \<longrightarrow> d' ! r = 0)"
proof (cases "k = 0")
  case True
  have "ext_term cj x (Some k) dx (isexternal_of dx) ix
        = Inr (map2 (*) d (map (\<lambda>row. row ! ix) dx), rows, cols)"
    using True cj dx np_col_ok [OF dx(1) ix] by (simp add: ext_term_Some_0 np_inplace_def)
  then show ?thesis
    using cj(2) dx(2) zero ix by simp
next
  case False
  then have k1: "1 \<le> k" using k by simp
  have l: "length dx = length d" using cj(2) dx(2) by simp
  have "length (isexternal_of dx) = n"
    using dx(2) by (simp add: isexternal_of_def)
  then show ?thesis
    unfolding ext_term_derivative [where cj = cj and k = k and ix = ix and x = x, OF cj(1) k1 k(2) dx(1) l ix]
    using cj(2) dx(2) zero ix by simp
qed

lemma extrapolate_loop_zero_offset:
  assumes pat: "\<forall>ix<nx. \<exists>d. cj (Some k) (ix + 1) x = Inr (d, rows, cols) \<and> length d = n"
      and k: "0 \<le> k" "k \<le> int nx"
      and dx: "list_all (\<lambda>row. length row = nx) dx" "length dx = n"
      and zero: "\<forall>r<n. rows ! r = i \<longrightarrow> (\<forall>j<nx. dx ! r ! j = 0)"
      and ixs: "\<forall>ix\<in>set ixs. ix < nx"
      and acc: "length acc = n"
  shows "\<exists>data'. extrapolate_loop cj x (Some k) dx (isexternal_of dx) ixs (acc, rows, cols)
                   = Inr (data', rows, cols)
            \<and> length data' = n \<and> (\<forall>r<n. rows ! r = i \<longrightarrow> data' ! r = acc ! r)"
  using ixs acc
proof (induction ixs arbitrary: acc)
  case Nil
  then show ?case by simp
next
  case (Cons ix ixs)
  from Cons.prems have ix: "ix < nx" by simp
  from pat ix obtain d where d: "cj (Some k) (ix + 1) x = Inr (d, rows, cols)" "length d = n"
    by blast
  from ext_term_zero_offset [where cj = cj and k = k and ix = ix and x = x, OF d k dx ix zero]
  obtain d' where d': "ext_term cj x (Some k) dx (isexternal_of dx) ix = Inr (d', rows, cols)"
    "length d' = n" "\<forall>r<n. rows ! r = i \<longrightarrow> d' ! r = 0"
    by blast
  define acc' where "acc' = map2 (+) acc d'"
  have la: "length acc' = n" using Cons.prems(2) d'(2) by (simp add: acc'_def)
  have step: "extrapolate_loop cj x (Some k) dx (isexternal_of dx) (ix # ixs) (acc, rows, cols)
              = extrapolate_loop cj x (Some k) dx (isexternal_of dx) ixs (acc', rows, cols)"
    using d' Cons.prems(2) by (simp add: np_inplace_def acc'_def)
  have keep: "\<forall>r<n. rows ! r = i \<longrightarrow> acc' ! r = acc ! r"
    using d' Cons.prems(2) by (simp add: acc'_def)
  from Cons.IH [OF _ la] Cons.prems(1)
  obtain data' where "extrapolate_loop cj x (Some k) dx (isexternal_of dx) ixs (acc', rows, cols)
                   = Inr (data', rows, cols)"
    "length data' = n" "\<forall>r<n. rows ! r = i \<longrightarrow> data' ! r = acc' ! r"
    by auto
  then show ?case
    using step keep by simp
qed

lemma rmap_cong_nth:
  assumes "rmap f xs = Inr ys" "\<forall>x\<in>set xs. \<exists>z. g x = Inr z \<and> P (projr (f x)) z"
  shows "\<exists>zs. rmap g xs = Inr zs \<and> list_all2 P ys zs"
  using assms
proof (induction xs arbitrary: ys)
  case Nil
  then show ?case by simp
next
  case (Cons x xs)
  from Cons.prems(1) obtain y ys' where y: "f x = Inr y" "rmap f xs = Inr ys'" "ys = y # ys'"
    by (auto simp: rbind_Inr_iff)
  from Cons.prems(2) obtain z where z: "g x = Inr z" "P (projr (f x)) z" by auto
  from Cons.IH [OF y(2)] Cons.prems(2)
  obtain zs where "rmap g xs = Inr zs" "list_all2 P ys' zs" by auto
  then show ?case
    using y z by auto
qed

text \<open>
  Continuity of the extrapolation for an integer derivative index \<open>k\<close> (0 for the
  value).  Let the assembler return the same sparsity pattern for the base Jacobian
  and for every first-order term, and let the offsets computed by the external routine
  be zero on every Jacobian entry of query point \<open>i\<close>.  Then, if \<open>evaluate\<close> without
  extrapolation returns a prediction, \<open>evaluate\<close> with extrapolation returns one too,
  and the two agree at point \<open>i\<close>.  The index \<open>None\<close> is not covered: see below.
\<close>

lemma evaluate_extrapolate_zero_offset_int_index:
  assumes fitted: "self_num self = Some num"
      and k: "0 \<le> k" "k \<le> int (num_x num)"
      and base: "cj (Some k) 0 x = Inr (data, rows, cols)"
      and pat: "\<forall>ix<num_x num. \<exists>d. cj (Some k) (ix + 1) x = Inr (d, rows, cols) \<and> length d = length data"
      and dist: "ced (num_x num) (length x) (length x * num_support num) (xlimits (self_options self)) x = Inr dx"
      and dx: "list_all (\<lambda>row. length row = num_x num) dx" "length dx = length data"
      and zero: "\<forall>r<length data. rows ! r = i \<longrightarrow> (\<forall>j<num_x num. dx ! r ! j = 0)"
      and i: "i < length x"
      and plain: "evaluate cj ced (self\<lparr>self_options := (self_options self)\<lparr>extrapolate := False\<rparr>\<rparr>) x (Some k) = Inr y0"
  shows "\<exists>y1. evaluate cj ced (self\<lparr>self_options := (self_options self)\<lparr>extrapolate := True\<rparr>\<rparr>) x (Some k) = Inr y1
            \<and> y1 ! i = y0 ! i"
proof -
  let ?n = "length x" and ?nc = "num_coeff num"
  from plain fitted base obtain mtx0 sol ys0 where
    m0: "csc_matrix data rows cols (?n, ?nc) = Inr mtx0" and
    sol: "self_sol self = Some sol" and
    ys0: "rmap (sp_matvec mtx0) sol = Inr ys0" and
    y0: "y0 = map (\<lambda>i. map (\<lambda>c. c ! i) ys0) [0..<nrows mtx0]"
    by (auto simp: evaluate_def Let_def attr_def sp_dot_dense_def rbind_Inr_iff split: option.splits)
  from m0 have shape: "length rows = length data" "length cols = length data"
    "list_all (\<lambda>r. r < ?n) rows" "list_all (\<lambda>c. c < ?nc) cols"
    and mtx0: "mtx0 = \<lparr>nrows = ?n, ncols = ?nc, entries = zip rows (zip cols data)\<rparr>"
    by (auto simp: csc_matrix_def split: if_splits)
  from extrapolate_loop_zero_offset
         [where cj = cj and k = k and x = x and ixs = "[0..<num_x num]" and acc = data,
          OF pat k dx zero]
  obtain data' where
    loop: "extrapolate_loop cj x (Some k) dx (isexternal_of dx) [0..<num_x num] (data, rows, cols)
           = Inr (data', rows, cols)"
    and l': "length data' = length data"
    and keep: "\<forall>r<length data. rows ! r = i \<longrightarrow> data' ! r = data ! r"
    by auto
  define mtx1 where "mtx1 = \<lparr>nrows = ?n, ncols = ?nc, entries = zip rows (zip cols data')\<rparr>"
  have m1: "csc_matrix data' rows cols (?n, ?nc) = Inr mtx1"
    using shape l' by (simp add: csc_matrix_def mtx1_def)
  have col: "\<exists>z. sp_matvec mtx1 c = Inr z \<and> (length z = ?n \<and> z ! i = projr (sp_matvec mtx0 c) ! i)"
    if "c \<in> set sol" for c
  proof -
    from ys0 that have "\<exists>y. sp_matvec mtx0 c = Inr y"
    proof (induction sol arbitrary: ys0)
      case Nil
      then show ?case by simp
    next
      case (Cons a sol)
      then show ?case by (auto simp: rbind_Inr_iff)
    qed
    then have lc: "length c = ?nc"
      by (auto simp: sp_matvec_def mtx0 split: if_splits)
    have "sp_row_dot (zip rows (zip cols data')) c i = sp_row_dot (zip rows (zip cols data)) c i"
      using l' shape(1,2) keep by (intro sp_row_dot_zip_cong) simp_all
    then show ?thesis
      using lc i by (simp add: sp_matvec_def mtx0 mtx1_def mat_vec_def)
  qed
  from rmap_cong_nth [OF ys0, of "sp_matvec mtx1" "\<lambda>y z. length z = ?n \<and> z ! i = y ! i"] col
  obtain ys1 where ys1: "rmap (sp_matvec mtx1) sol = Inr ys1"
    and rel: "list_all2 (\<lambda>y z. length z = ?n \<and> z ! i = y ! i) ys0 ys1"
    by auto
  have "evaluate cj ced (self\<lparr>self_options := (self_options self)\<lparr>extrapolate := True\<rparr>\<rparr>) x (Some k)
        = Inr (map (\<lambda>i. map (\<lambda>c. c ! i) ys1) [0..<?n])"
    using fitted base dist loop m1 sol ys1
    by (simp add: evaluate_def Let_def attr_def sp_dot_dense_def mtx1_def)
  moreover have "map (\<lambda>i. map (\<lambda>c. c ! i) ys1) [0..<?n] ! i = y0 ! i"
    using i rel unfolding y0 mtx0
    by (auto simp: list_all2_conv_all_nth intro!: nth_equalityI)
  ultimately show ?thesis by simp
qed

section \<open>Evaluation on concrete inputs\<close>

lemma upt_3: "[0..<3] = [0, 1, 2]"
  by (simp add: upt_rec)

lemma upt_2: "[0..<2] = [0, 1]"
  by (simp add: upt_rec)

lemma all_less_3: "(\<forall>i<3::nat. P i) \<longleftrightarrow> P 0 \<and> P 1 \<and> P 2"
  by (auto simp: numeral_3_eq_3 numeral_2_eq_2 less_Suc_eq)

lemma all_less_2: "(\<forall>i<2::nat. P i) \<longleftrightarrow> P 0 \<and> P 1"
  by (auto simp: numeral_2_eq_2 less_Suc_eq)

lemmas eval_simps =
  evaluate_def attr_def Let_def ext_term_def extrapolate_loop.simps np_col_def np_col_int_def
  np_inplace_def isexternal_of_def csc_matrix_def sp_dot_dense_def sp_matvec_def mat_vec_def
  sp_row_dot_def cj_const_def ext_dist_def rmt_fitted_def opts3_def num3_def x_two_def
  upt_3 upt_2

theorem evaluate_None_extrapolate_type_error_witness:
  "extrapolate (self_options rmt_fitted) \<and> self_num rmt_fitted = Some num3 \<and> 0 < num_x num3
   \<and> evaluate cj_const ext_dist rmt_fitted [[2, 2, 2]] None = Inl TypeError
   \<and> evaluate cj_const ext_dist rmt_fitted [[2, 2, 2]] (Some 0) = Inr [[20]]"
proof -
  have a: "extrapolate (self_options rmt_fitted)" by (simp add: rmt_fitted_def opts3_def)
  have b: "self_num rmt_fitted = Some num3" by (simp add: rmt_fitted_def)
  have c: "0 < num_x num3" by (simp add: num3_def)
  have pre: "cj_const None 0 [[2, 2, 2]] = Inr ([1], [0], [0])
     \<and> ext_dist (num_x num3) (length [[2, 2, 2 :: real]]) (length [[2, 2, 2 :: real]] * num_support num3)
          (xlimits (self_options rmt_fitted)) [[2, 2, 2]] = Inr [[1, 1, 1]]
     \<and> cj_const None 1 [[2, 2, 2]] = Inr ([1], [0], [0])
     \<and> np_col [[1, 1, 1]] 0 = Inr [1] \<and> np_inplace (*) [1] [1] = Inr [1]"
    by (simp add: eval_simps)
  have n: "evaluate cj_const ext_dist rmt_fitted [[2, 2, 2]] None = Inl TypeError"
    using evaluate_None_extrapolate_type_error
            [where cj = cj_const and ced = ext_dist and x = "[[2, 2, 2]]", OF a b c,
             THEN conjunct2, THEN conjunct1, rule_format, OF pre] .
  have z: "evaluate cj_const ext_dist rmt_fitted [[2, 2, 2]] (Some 0) = Inr [[20]]"
    by (simp add: eval_simps)
  show ?thesis using a b c n z by simp
qed

lemma evaluate_extrapolate_zero_offset_int_index_x_two:
  "ext_dist 3 2 2 (xlimits opts3) x_two = Inr [[0, 0, 0], [1, 0, 0]]
   \<and> evaluate cj_const ext_dist (rmt_fitted\<lparr>self_options := (self_options rmt_fitted)\<lparr>extrapolate := False\<rparr>\<rparr>)
        x_two (Some 0) = Inr [[5], [5]]
   \<and> (\<exists>y1. evaluate cj_const ext_dist (rmt_fitted\<lparr>self_options := (self_options rmt_fitted)\<lparr>extrapolate := True\<rparr>\<rparr>)
              x_two (Some 0) = Inr y1
          \<and> y1 ! 0 = [[5], [5]] ! 0)"
proof -
  have fitted: "self_num rmt_fitted = Some num3" by (simp add: rmt_fitted_def)
  have k: "(0::int) \<le> 0" "0 \<le> int (num_x num3)" by simp_all
  have base: "cj_const (Some 0) 0 x_two = Inr ([1, 1], [0, 1], [0, 0])"
    by (simp add: cj_const_def x_two_def upt_2)
  have pat: "\<forall>ix<num_x num3. \<exists>d. cj_const (Some 0) (ix + 1) x_two = Inr (d, [0, 1], [0, 0])
                                   \<and> length d = length [1, 1 :: real]"
    by (simp add: cj_const_def x_two_def upt_2)
  have dist: "ext_dist (num_x num3) (length x_two) (length x_two * num_support num3)
                (xlimits (self_options rmt_fitted)) x_two = Inr [[0, 0, 0], [1, 0, 0]]"
    by (simp add: ext_dist_def x_two_def num3_def rmt_fitted_def opts3_def)
  have dx: "list_all (\<lambda>row. length row = num_x num3) [[0, 0, 0], [1, 0, 0 :: real]]"
    "length [[0, 0, 0], [1, 0, 0 :: real]] = length [1, 1 :: real]"
    by (simp_all add: num3_def)
  have zero: "\<forall>r<length [1, 1 :: real]. [0, 1 :: nat] ! r = 0
                \<longrightarrow> (\<forall>j<num_x num3. [[0, 0, 0], [1, 0, 0 :: real]] ! r ! j = 0)"
    by (auto simp: num3_def all_less_3 less_Suc_eq)
  have i: "0 < length x_two" by (simp add: x_two_def)
  have plain: "evaluate cj_const ext_dist (rmt_fitted\<lparr>self_options := (self_options rmt_fitted)\<lparr>extrapolate := False\<rparr>\<rparr>)
        x_two (Some 0) = Inr [[5], [5]]"
    by (simp add: eval_simps)
  have d3: "ext_dist 3 2 2 (xlimits opts3) x_two = Inr [[0, 0, 0], [1, 0, 0]]"
    by (simp add: ext_dist_def x_two_def opts3_def)
  from evaluate_extrapolate_zero_offset_int_index
         [where cj = cj_const and ced = ext_dist and self = rmt_fitted and k = 0 and x = x_two
            and i = 0, OF fitted k base pat dist dx zero i plain]
  show ?thesis using d3 plain by simp
qed

text \<open>
  Claim C9.  At a query point whose offset vector to the domain is zero, \<open>evaluate\<close>
  with extrapolation enabled should return the prediction that \<open>evaluate\<close> without
  extrapolation returns there.  The code does so for an integer derivative index (the
  two lemmas above), but not for the index \<open>None\<close>, which the docstring of \<^verbatim>\<open>evaluate\<close>
  gives as the way to ask for the prediction itself.  For the fitted model
  \<open>rmt_fitted\<close> and the point \<open>(1, 1/2, 0)\<close> on the boundary of the domain \<open>[0, 1]\<^sup>3\<close>,
  alone or followed by a point outside, the offset vector is zero and the plain
  \<open>evaluate\<close> returns the prediction \<open>5\<close>, while \<open>evaluate\<close> with extrapolation raises
  \<open>TypeError\<close> at \<^verbatim>\<open>kx-1\<close> and returns nothing.
\<close>

theorem evaluate_zero_offset_None_raises:
  "ext_dist 3 1 1 (xlimits opts3) [[1, 1/2, 0]] = Inr [[0, 0, 0]]
   \<and> evaluate cj_const ext_dist (rmt_fitted\<lparr>self_options := (self_options rmt_fitted)\<lparr>extrapolate := False\<rparr>\<rparr>)
        [[1, 1/2, 0]] None = Inr [[5]]
   \<and> evaluate cj_const ext_dist (rmt_fitted\<lparr>self_options := (self_options rmt_fitted)\<lparr>extrapolate := True\<rparr>\<rparr>)
        [[1, 1/2, 0]] None = Inl TypeError
   \<and> ext_dist 3 2 2 (xlimits opts3) x_two = Inr [[0, 0, 0], [1, 0, 0]]
   \<and> evaluate cj_const ext_dist (rmt_fitted\<lparr>self_options := (self_options rmt_fitted)\<lparr>extrapolate := False\<rparr>\<rparr>)
        x_two None = Inr [[5], [5]]
   \<and> evaluate cj_const ext_dist (rmt_fitted\<lparr>self_options := (self_options rmt_fitted)\<lparr>extrapolate := True\<rparr>\<rparr>)
        x_two None = Inl TypeError"
  by (simp add: eval_simps)

section \<open>The assembly functions return on well-shaped data\<close>

lemma opt_grad_loop_ok:
  assumes "list_all (term_ok dof jd yd) ks" "length sol = dof" "length g = dof"
  shows "\<exists>g'. opt_grad_loop sol p jd yd ks g = Inr g' \<and> length g' = dof"
  using assms
proof (induction ks arbitrary: g)
  case Nil
  then show ?case by simp
next
  case (Cons kx ks)
  from Cons.prems have t: "term_ok dof jd yd kx" and r: "list_all (term_ok dof jd yd) ks" by simp_all
  from t obtain J JT yt where l: "lookup jd kx = Inr (J, JT)" "lookup yd kx = Inr yt"
    and s: "ncols J = dof" "nrows JT = dof" "ncols JT = nrows J" "length yt = nrows J"
    by (rule term_okD)
  define g' where "g' = map2 (+) g (mat_vec (sp_scale (real_of_int p) (sp_scale 0.5 JT))
                                     (np_pow (map2 (-) (mat_vec J sol) yt) (p - 1)))"
  have step: "opt_grad_loop sol p jd yd (kx # ks) g = opt_grad_loop sol p jd yd ks g'"
    using l s Cons.prems(2,3)
    by (simp add: sp_matvec_def np_bin_def np_inplace_def np_pow_def g'_def)
  have "length g' = dof"
    using s Cons.prems(3) by (simp add: g'_def)
  from Cons.IH [OF r Cons.prems(2) this] step show ?case by simp
qed

lemma opt_grad_ok:
  assumes "system_ok tp H jd yd dof" "length sol = dof"
  shows "\<exists>g. opt_grad tp sol p H jd yd = Inr g \<and> length g = dof"
proof -
  from assms(1) have H: "nrows H = dof" "ncols H = dof"
    and t: "list_all (term_ok dof jd yd) (keys tp)"
    by (simp_all add: system_ok_def)
  from opt_grad_loop_ok [OF t assms(2), of "mat_vec H sol" p] H assms(2)
  show ?thesis by (simp add: opt_grad_def sp_matvec_def)
qed

lemma opt_norm_ok:
  assumes "system_ok tp H jd yd dof" "length sol = dof"
  shows "\<exists>n. opt_norm tp sol p H jd yd = Inr n"
  using opt_grad_ok [OF assms, of p] by (auto simp: opt_norm_def)

lemma opt_func_loop_ok:
  assumes "list_all (term_ok dof jd yd) ks" "length sol = dof"
  shows "\<exists>f'. opt_func_loop sol p jd yd ks f = Inr f'"
  using assms
proof (induction ks arbitrary: f)
  case Nil
  then show ?case by simp
next
  case (Cons kx ks)
  from Cons.prems have t: "term_ok dof jd yd kx" and r: "list_all (term_ok dof jd yd) ks" by simp_all
  from t obtain J JT yt where l: "lookup jd kx = Inr (J, JT)" "lookup yd kx = Inr yt"
    and s: "ncols J = dof" "length yt = nrows J"
    by (rule term_okD)
  have "opt_func_loop sol p jd yd (kx # ks) f
        = opt_func_loop sol p jd yd ks (f + 0.5 * np_sum (np_pow (map2 (-) (mat_vec J sol) yt) p))"
    using l s Cons.prems(2) by (simp add: sp_matvec_def np_bin_def)
  with Cons.IH [OF r Cons.prems(2)] show ?case by simp
qed

lemma opt_func_ok:
  assumes "system_ok tp H jd yd dof" "length sol = dof"
  shows "\<exists>f. opt_func tp sol p H jd yd = Inr f"
proof -
  from assms(1) have H: "nrows H = dof" "ncols H = dof"
    and t: "list_all (term_ok dof jd yd) (keys tp)"
    by (simp_all add: system_ok_def)
  from opt_func_loop_ok [OF t assms(2)] H assms(2)
  show ?thesis by (simp add: opt_func_def sp_matvec_def np_dot_def)
qed

lemma sp_wf_transpose: "sp_wf J \<Longrightarrow> sp_wf (sp_transpose J)"
  by (auto simp: sp_wf_def sp_transpose_def list_all_iff)

lemma system_ok_terms:
  assumes ok: "terms_ok dof ts" and wf: "list_all (\<lambda>(kx, J, y). sp_wf J) ts"
      and k: "keys tp = map fst ts" and H: "nrows H = dof" "ncols H = dof"
  shows "system_ok tp H (jac_dict_of ts) (yt_dict_of ts) dof"
proof -
  have d: "distinct (map fst ts)" using ok by (simp add: terms_ok_def)
  have "term_ok dof (jac_dict_of ts) (yt_dict_of ts) kx" if "kx \<in> set (map fst ts)" for kx
  proof -
    from that obtain J y where m: "(kx, J, y) \<in> set ts" by auto
    from lookup_jac_dict_of [OF d m] lookup_yt_dict_of [OF d m]
    have "map_of (jac_dict_of ts) kx = Some (J, sp_transpose J)" "map_of (yt_dict_of ts) kx = Some y"
      by (auto simp: lookup_def split: option.splits)
    moreover from ok wf m have "sp_wf J" "ncols J = dof" "length y = nrows J"
      by (auto simp: terms_ok_def list_all_iff)
    ultimately show ?thesis
      by (simp add: term_ok_def sp_wf_transpose)
  qed
  moreover have "keys (jac_dict_of ts) = map fst ts"
    by (auto simp: keys_def jac_dict_of_def)
  ultimately show ?thesis
    using k H by (simp add: system_ok_def list_all_iff)
qed

section \<open>The dictionaries of a fit\<close>

lemma update_fresh:
  "k \<notin> fst ` set al \<Longrightarrow> AList.update k v al = al @ [(k, v)]"
  by (induction al) auto

lemma keys_tp_of: "keys (tp_of fd) = map fst fd"
  by (auto simp: keys_def tp_of_def)

lemma map_fst_terms_at: "map fst (terms_at fd y) = map fst fd"
  by (auto simp: terms_at_def)

lemma jd_of_terms_at: "jd_of fd = jac_dict_of (terms_at fd y)"
  by (auto simp: jd_of_def jac_dict_of_def terms_at_def)

lemma lookup_tp_of:
  assumes "distinct (map fst fd)" "(kx, J, xt, yt) \<in> set fd"
  shows "lookup (tp_of fd) kx = Inr (xt, yt)"
proof -
  have "map fst (tp_of fd) = map fst fd"
    by (auto simp: tp_of_def)
  moreover have "(kx, (xt, yt)) \<in> set (tp_of fd)"
    using assms(2) by (force simp: tp_of_def)
  ultimately have "map_of (tp_of fd) kx = Some (xt, yt)"
    using assms(1) by (intro map_of_is_SomeI) simp_all
  then show ?thesis by (simp add: lookup_def)
qed

lemma get_yt_dict_loop_ok:
  assumes d: "distinct (map fst fd)"
      and cols: "\<forall>(kx, J, xt, yt)\<in>set fd. \<forall>row\<in>set yt. y < length row"
      and sub: "set ts \<subseteq> set fd" and dts: "distinct (map fst ts)"
      and disj: "fst ` set acc \<inter> fst ` set ts = {}"
  shows "get_yt_dict_loop (tp_of fd) y (map fst ts) acc
         = Inr (acc @ map (\<lambda>(kx, J, xt, yt). (kx, map (\<lambda>row. row ! y) yt)) ts)"
  using sub dts disj
proof (induction ts arbitrary: acc)
  case Nil
  then show ?case by simp
next
  case (Cons t ts)
  obtain kx J xt yt where t: "t = (kx, J, xt, yt)" by (cases t) auto
  from Cons.prems(1) t have m: "(kx, J, xt, yt) \<in> set fd" by simp
  have l: "lookup (tp_of fd) kx = Inr (xt, yt)" by (rule lookup_tp_of [OF d m])
  have c: "np_col yt y = Inr (map (\<lambda>row. row ! y) yt)"
    using cols m by (auto simp: np_col_def list_all_iff)
  have fresh: "kx \<notin> fst ` set acc" using Cons.prems(3) t by auto
  let ?acc' = "acc @ [(kx, map (\<lambda>row. row ! y) yt)]"
  have step: "get_yt_dict_loop (tp_of fd) y (map fst (t # ts)) acc
              = get_yt_dict_loop (tp_of fd) y (map fst ts) ?acc'"
    using l c t update_fresh [OF fresh] by simp
  have "fst ` set ?acc' \<inter> fst ` set ts = {}"
    using Cons.prems(2,3) t by auto
  from Cons.IH [OF _ _ this] Cons.prems(1,2) step t show ?case by simp
qed

lemma get_yt_dict_ok:
  assumes "fit_data_ok num H fd" "y < num_y num"
  shows "get_yt_dict (tp_of fd) y = Inr (yt_dict_of (terms_at fd y))"
proof -
  from assms have d: "distinct (map fst fd)"
    and cols: "\<forall>(kx, J, xt, yt)\<in>set fd. \<forall>row\<in>set yt. y < length row"
    by (auto simp: fit_data_ok_def list_all_iff)
  from get_yt_dict_loop_ok [OF d cols, of fd "[]"] d
  show ?thesis
    by (simp add: get_yt_dict_def keys_tp_of yt_dict_of_def terms_at_def case_prod_unfold)
qed

lemma terms_ok_terms_at:
  assumes "fit_data_ok num H fd"
  shows "terms_ok (num_dof num) (terms_at fd y)" "list_all (\<lambda>(kx, J, y). sp_wf J) (terms_at fd y)"
proof -
  have "distinct (map fst (terms_at fd y))"
    using assms by (simp add: map_fst_terms_at fit_data_ok_def)
  moreover have "list_all (\<lambda>(kx, J, y). ncols J = num_dof num \<and> length y = nrows J) (terms_at fd y)"
    using assms by (auto simp: fit_data_ok_def list_all_iff terms_at_def)
  ultimately show "terms_ok (num_dof num) (terms_at fd y)"
    by (simp add: terms_ok_def)
  show "list_all (\<lambda>(kx, J, y). sp_wf J) (terms_at fd y)"
    using assms by (auto simp: fit_data_ok_def list_all_iff terms_at_def)
qed

lemma system_ok_fit_data:
  assumes "fit_data_ok num H fd"
  shows "system_ok (tp_of fd) H (jd_of fd) (yt_dict_of (terms_at fd y)) (num_dof num)"
proof -
  have "nrows H = num_dof num" "ncols H = num_dof num"
    using assms by (simp_all add: fit_data_ok_def)
  from system_ok_terms [OF terms_ok_terms_at [OF assms] _ this, of "tp_of fd" y]
  show ?thesis
    by (simp add: keys_tp_of map_fst_terms_at jd_of_terms_at [symmetric])
qed

section \<open>The bootstrap solve\<close>

lemma np_scale_one [simp]: "np_scale 1 v = v"
  by (simp add: np_scale_def)

lemma vec_add_assoc:
  assumes "length a = n" "length b = n" "length c = n"
  shows "vec_add (map2 (+) a b) c = vec_add a (vec_add b c)"
  using assms by (auto simp: vec_add_def intro!: nth_equalityI)

lemma vec_add_zeros:
  assumes "length g = n"
  shows "vec_add g (replicate n 0) = g"
  using assms by (auto simp: vec_add_def intro!: nth_equalityI)

lemma length_vec_add [simp]: "length (vec_add a b) = min (length a) (length b)"
  by (simp add: vec_add_def)

lemma mat_vec_matmul_entries:
  assumes "list_all (\<lambda>(r, c, a). c < nrows B) (entries A)"
  shows "map (sp_row_dot (concat (map (\<lambda>(i, j, a).
                map (\<lambda>(j', k, b). (i, k, a * b)) (filter (\<lambda>(j', k, b). j' = j) (entries B)))
              (entries A))) v) [0..<nrows A]
         = mat_vec A (mat_vec B v)"
  unfolding mat_vec_def by (simp add: sp_row_dot_matmul [OF assms])

lemma gn_term:
  assumes wf: "sp_wf J"
  shows "\<exists>m. sp_matmul (sp_scale (0.5 * 2 * (2 - 1)) (sp_transpose J)) J = Inr m
            \<and> nrows m = ncols J \<and> ncols m = ncols J
            \<and> mat_vec m v = mat_vec (sp_transpose J) (mat_vec J v)"
proof -
  let ?A = "sp_scale (0.5 * 2 * (2 - 1)) (sp_transpose J)"
  have c: "list_all (\<lambda>(r, c, a). c < nrows J) (entries ?A)"
    using sp_wf_cols [OF sp_wf_transpose [OF wf]]
    by (auto simp: sp_scale_def list_all_iff)
  have "mat_vec ?A (mat_vec J v) = mat_vec (sp_transpose J) (mat_vec J v)"
    by (simp add: mat_vec_scale)
  with mat_vec_matmul_entries [OF c, of v] show ?thesis
    by (simp add: sp_matmul_def mat_vec_def)
qed

lemma opt_hess_mtx_2_loop_action:
  assumes ts: "\<forall>(kx, J, y)\<in>set ts. lookup jd kx = Inr (J, sp_transpose J) \<and> sp_wf J \<and> ncols J = dof"
      and h: "nrows hess = dof" "ncols hess = dof"
  shows "\<exists>M. opt_hess_mtx_2_loop jd (map fst ts) hess = Inr M \<and> nrows M = dof \<and> ncols M = dof
           \<and> mat_vec M v = vec_add (mat_vec hess v)
                (vec_sum dof (map (\<lambda>(kx, J, y). mat_vec (sp_transpose J) (mat_vec J v)) ts))"
  using ts h
proof (induction ts arbitrary: hess)
  case Nil
  then show ?case by (simp add: vec_sum_def vec_add_zeros)
next
  case (Cons t ts)
  obtain kx J y where t: "t = (kx, J, y)" by (cases t)
  from Cons.prems(1) t have l: "lookup jd kx = Inr (J, sp_transpose J)" and wf: "sp_wf J"
    and nc: "ncols J = dof" by auto
  from gn_term [OF wf, of v] obtain m where
    m: "sp_matmul (sp_scale (0.5 * 2 * (2 - 1)) (sp_transpose J)) J = Inr m"
       "nrows m = ncols J" "ncols m = ncols J"
       "mat_vec m v = mat_vec (sp_transpose J) (mat_vec J v)"
    by blast
  define hess' where "hess' = hess\<lparr>entries := entries hess @ entries m\<rparr>"
  have step: "opt_hess_mtx_2_loop jd (map fst (t # ts)) hess = opt_hess_mtx_2_loop jd (map fst ts) hess'"
    using l m(1,2,3) nc Cons.prems(2,3) t by (simp add: sp_iadd_def hess'_def)
  have hv: "mat_vec hess' v = map2 (+) (mat_vec hess v) (mat_vec m v)"
    using m(2) nc Cons.prems(2)
    by (auto simp: hess'_def mat_vec_def sp_row_dot_append intro!: nth_equalityI)
  let ?S = "vec_sum dof (map (\<lambda>(kx, J, y). mat_vec (sp_transpose J) (mat_vec J v)) ts)"
  have lS: "length ?S = dof"
    using Cons.prems(1) by (intro length_vec_sum) auto
  from Cons.IH [of hess'] Cons.prems
  obtain M where M: "opt_hess_mtx_2_loop jd (map fst ts) hess' = Inr M" "nrows M = dof" "ncols M = dof"
    "mat_vec M v = vec_add (mat_vec hess' v) ?S"
    by (auto simp: hess'_def)
  have "vec_add (mat_vec hess' v) ?S
        = vec_add (mat_vec hess v) (vec_add (mat_vec (sp_transpose J) (mat_vec J v)) ?S)"
    unfolding hv m(4) using Cons.prems(2) nc lS by (intro vec_add_assoc [of _ dof]) simp_all
  then show ?case
    using step M t by (simp add: vec_sum_Cons)
qed

lemma op_2_dot_loop_action:
  assumes ts: "\<forall>(kx, J, y)\<in>set ts. lookup jd kx = Inr (J, sp_transpose J) \<and> sp_wf J \<and> ncols J = dof"
      and v: "length v = dof" and w: "length w = dof"
  shows "op_2_dot_loop jd v (map fst ts) w
         = Inr (vec_add w (vec_sum dof (map (\<lambda>(kx, J, y). mat_vec (sp_transpose J) (mat_vec J v)) ts)))"
  using ts w
proof (induction ts arbitrary: w)
  case Nil
  then show ?case by (simp add: vec_sum_def vec_add_zeros)
next
  case (Cons t ts)
  obtain kx J y where t: "t = (kx, J, y)" by (cases t)
  from Cons.prems(1) t have l: "lookup jd kx = Inr (J, sp_transpose J)" and nc: "ncols J = dof" by auto
  let ?u = "mat_vec (sp_transpose J) (mat_vec J v)"
  let ?S = "vec_sum dof (map (\<lambda>(kx, J, y). mat_vec (sp_transpose J) (mat_vec J v)) ts)"
  have lS: "length ?S = dof"
    using Cons.prems(1) by (intro length_vec_sum) auto
  have step: "op_2_dot_loop jd v (map fst (t # ts)) w = op_2_dot_loop jd v (map fst ts) (map2 (+) w ?u)"
    using l nc v Cons.prems(2) t
    by (simp add: sp_matvec_def np_inplace_def mat_vec_scale)
  have "op_2_dot_loop jd v (map fst ts) (map2 (+) w ?u) = Inr (vec_add (map2 (+) w ?u) ?S)"
    using Cons.prems nc by (intro Cons.IH) auto
  also have "vec_add (map2 (+) w ?u) ?S = vec_add w (vec_add ?u ?S)"
    using Cons.prems(2) nc lS by (intro vec_add_assoc [of _ dof]) simp_all
  finally show ?case
    using step t by (simp add: vec_sum_Cons)
qed

lemma lookup_jd_of:
  assumes "fit_data_ok num H fd"
  shows "\<forall>(kx, J, y)\<in>set (terms_at fd y). lookup (jd_of fd) kx = Inr (J, sp_transpose J)
           \<and> sp_wf J \<and> ncols J = num_dof num"
proof -
  have d: "distinct (map fst (terms_at fd y))"
    using assms by (simp add: map_fst_terms_at fit_data_ok_def)
  have "lookup (jd_of fd) kx = Inr (J, sp_transpose J) \<and> sp_wf J \<and> ncols J = num_dof num"
    if m: "(kx, J, yv) \<in> set (terms_at fd y)" for kx J yv
  proof -
    from m obtain xt yt where "(kx, J, xt, yt) \<in> set fd"
      by (auto simp: terms_at_def)
    with assms have "sp_wf J" "ncols J = num_dof num"
      by (auto simp: fit_data_ok_def list_all_iff)
    with lookup_jac_dict_of [OF d m] show ?thesis
      by (simp add: jd_of_terms_at [of fd y])
  qed
  then show ?thesis by auto
qed

lemma gauss_newton_action_terms:
  "length v = dof \<Longrightarrow>
   vec_add (mat_vec H v) (vec_sum dof (map (\<lambda>(kx, J, y). mat_vec (sp_transpose J) (mat_vec J v)) (terms_at fd y)))
   = gauss_newton_action H (map (\<lambda>(kx, J, xt, yt). J) fd) v"
  by (simp add: gauss_newton_action_def terms_at_def comp_def case_prod_unfold)

lemma opt_hess_2_action:
  assumes ok: "fit_data_ok num H fd"
  shows "\<exists>mtx. opt_hess_2 mf (tp_of fd) H (jd_of fd) = Inr mtx
           \<and> (\<forall>v. length v = num_dof num \<longrightarrow>
                 apply_linop mtx v = Inr (gauss_newton_action H (map (\<lambda>(kx, J, xt, yt). J) fd) v))"
proof (cases mf)
  case True
  have H: "nrows H = num_dof num" "ncols H = num_dof num"
    using ok by (simp_all add: fit_data_ok_def)
  have k: "keys (jd_of fd) = map fst (terms_at fd 0)"
    by (simp add: keys_def jd_of_terms_at [of fd 0] jac_dict_of_def map_fst_terms_at comp_def
                  case_prod_unfold terms_at_def)
  have "op_2_dot H (jd_of fd) v = Inr (gauss_newton_action H (map (\<lambda>(kx, J, xt, yt). J) fd) v)"
    if "length v = num_dof num" for v
    using op_2_dot_loop_action [OF lookup_jd_of [OF ok, of 0] that, of "mat_vec H v"] that H
    by (simp add: op_2_dot_def sp_matvec_def k gauss_newton_action_terms)
  then show ?thesis
    using True H by (simp add: opt_hess_2_def opt_hess_op_2_def)
next
  case False
  have H: "nrows H = num_dof num" "ncols H = num_dof num"
    using ok by (simp_all add: fit_data_ok_def)
  note loop = opt_hess_mtx_2_loop_action [OF lookup_jd_of [OF ok, of 0] H]
  from loop [of "[]"] obtain M where
    M: "opt_hess_mtx_2_loop (jd_of fd) (map fst (terms_at fd 0)) H = Inr M"
       "nrows M = num_dof num" "ncols M = num_dof num"
    by blast
  have "sp_matvec M v = Inr (gauss_newton_action H (map (\<lambda>(kx, J, xt, yt). J) fd) v)"
    if "length v = num_dof num" for v
    using loop [of v] M that by (auto simp: sp_matvec_def gauss_newton_action_terms)
  then show ?thesis
    using False M by (simp add: opt_hess_2_def opt_hess_mtx_2_def keys_tp_of map_fst_terms_at)
qed

lemma bootstrap_rhs_formula:
  assumes ok: "fit_data_ok num H fd" and y: "y < num_y num"
  shows "bootstrap_rhs num (tp_of fd) H (jd_of fd) y
         = Inr (np_neg (grad_formula H (map snd (terms_at fd y)) (np_zeros (num_dof num)) 2))"
    and "length (grad_formula H (map snd (terms_at fd y)) (np_zeros (num_dof num)) 2) = num_dof num"
proof -
  let ?z = "np_zeros (num_dof num)"
  have lz: "length ?z = num_dof num" by (simp add: np_zeros_def)
  have H: "ncols H = length ?z" "nrows H = length ?z"
    using ok by (simp_all add: fit_data_ok_def np_zeros_def)
  have t: "terms_ok (length ?z) (terms_at fd y)"
    using terms_ok_terms_at(1) [OF ok] by (simp add: np_zeros_def)
  have k: "keys (tp_of fd) = map fst (terms_at fd y)"
    by (simp add: keys_tp_of map_fst_terms_at)
  have g: "opt_grad (tp_of fd) ?z 2 H (jd_of fd) (yt_dict_of (terms_at fd y))
           = Inr (grad_formula H (map snd (terms_at fd y)) ?z 2)"
    unfolding jd_of_terms_at [of fd y] by (rule opt_grad_eq_formula [OF t k H])
  from opt_grad_ok [OF system_ok_fit_data [OF ok] lz, of 2 y] g
  show l: "length (grad_formula H (map snd (terms_at fd y)) ?z 2) = num_dof num"
    by simp
  show "bootstrap_rhs num (tp_of fd) H (jd_of fd) y
         = Inr (np_neg (grad_formula H (map snd (terms_at fd y)) ?z 2))"
    using get_yt_dict_ok [OF ok y] g l
    by (simp add: bootstrap_rhs_def np_assign_def np_neg_def)
qed

lemma rmap_all:
  "\<forall>a\<in>set xs. f a = Inr (g a) \<Longrightarrow> rmap f xs = Inr (map g xs)"
  by (induction xs) simp_all

lemma wmap_all:
  "\<forall>a\<in>set xs. f a = (e a, Inr (g a)) \<Longrightarrow> wmap f xs = (concat (map e xs), Inr (map g xs))"
  by (induction xs) simp_all

lemma zip_map_same: "zip xs (map f xs) = map (\<lambda>x. (x, f x)) xs"
  by (induction xs) simp_all

section \<open>The runs of the fit driver\<close>

lemma wmap_enum:
  "\<forall>y\<in>set ys. f (y, b y) = ([e y], Inr (g y)) \<Longrightarrow>
   wmap f (map (\<lambda>y. (y, b y)) ys) = (map e ys, Inr (map g ys))"
  by (induction ys) simp_all

lemma bootstrap_run:
  assumes ok: "fit_data_ok num H fd" and co: "collaborators_return co"
  shows "\<exists>mtx xs. length xs = num_y num
           \<and> (\<forall>x\<in>set xs. length x = num_dof num)
           \<and> (\<forall>v. length v = num_dof num \<longrightarrow>
                 apply_linop mtx v = Inr (gauss_newton_action H (map (\<lambda>(kx, J, xt, yt). J) fd) v))
           \<and> bootstrap co opts num (tp_of fd) H (jd_of fd)
               = (SolverInitialize mtx #
                    map (\<lambda>y. SolverSolve
                               (np_neg (grad_formula H (map snd (terms_at fd y)) (np_zeros (num_dof num)) 2))
                               (np_zeros (num_dof num)) y (Inr (xs ! y)))
                        [0..<num_y num],
                  Inr xs)"
proof -
  let ?z = "np_zeros (num_dof num)"
  let ?rhs = "\<lambda>y. np_neg (grad_formula H (map snd (terms_at fd y)) ?z 2)"
  from opt_hess_2_action [OF ok, of "use_mtx_free opts"] obtain mtx where
    mtx: "opt_hess_2 (use_mtx_free opts) (tp_of fd) H (jd_of fd) = Inr mtx"
    and act: "\<forall>v. length v = num_dof num \<longrightarrow>
                 apply_linop mtx v = Inr (gauss_newton_action H (map (\<lambda>(kx, J, xt, yt). J) fd) v)"
    by blast
  have rhs: "rmap (bootstrap_rhs num (tp_of fd) H (jd_of fd)) [0..<num_y num] = Inr (map ?rhs [0..<num_y num])"
    using bootstrap_rhs_formula(1) [OF ok] by (intro rmap_all) simp
  have lr: "length (?rhs y) = length ?z" if "y < num_y num" for y
    using bootstrap_rhs_formula(2) [OF ok that] by (simp add: np_neg_def np_zeros_def)
  define x where "x y = projr (solver_solve co mtx (?rhs y) ?z y)" for y
  define xs where "xs = map x [0..<num_y num]"
  have lxs: "length xs = num_y num" by (simp add: xs_def)
  have sx: "solver_solve co mtx (?rhs y) ?z y = Inr (xs ! y) \<and> length (xs ! y) = num_dof num"
    if "y < num_y num" for y
  proof -
    from co lr [OF that] obtain r where "solver_solve co mtx (?rhs y) ?z y = Inr r" "length r = length ?z"
      unfolding collaborators_return_def by blast
    then show ?thesis using that by (simp add: x_def xs_def np_zeros_def)
  qed
  have init: "solver_initialize co mtx = Inr ()"
    using co by (simp add: collaborators_return_def)
  have "wmap (\<lambda>(ind_y, b).
             (let r = solver_solve co mtx b ?z ind_y in emit (SolverSolve b ?z ind_y r) r))
          (map (\<lambda>y. (y, ?rhs y)) [0..<num_y num])
        = (map (\<lambda>y. SolverSolve (?rhs y) ?z y (Inr (xs ! y))) [0..<num_y num],
           Inr (map (\<lambda>y. xs ! y) [0..<num_y num]))"
    using sx by (intro wmap_enum) (simp add: emit_def Let_def)
  also have "map (\<lambda>y. xs ! y) [0..<num_y num] = xs"
    using lxs map_nth [of xs] by simp
  finally have w: "wmap (\<lambda>(ind_y, b).
             (let r = solver_solve co mtx b ?z ind_y in emit (SolverSolve b ?z ind_y r) r))
          (map (\<lambda>y. (y, ?rhs y)) [0..<num_y num])
        = (map (\<lambda>y. SolverSolve (?rhs y) ?z y (Inr (xs ! y))) [0..<num_y num], Inr xs)" .
  have "bootstrap co opts num (tp_of fd) H (jd_of fd)
        = (SolverInitialize mtx #
             map (\<lambda>y. SolverSolve (?rhs y) ?z y (Inr (xs ! y))) [0..<num_y num],
           Inr xs)"
    using mtx rhs init w
    by (simp add: bootstrap_def quiet_def emit_def zip_map_same)
  moreover have "\<forall>v\<in>set xs. length v = num_dof num"
    using sx lxs by (auto simp: in_set_conv_nth)
  ultimately show ?thesis
    using act lxs by (intro exI [of _ mtx] exI [of _ xs]) simp
qed

lemma opt_hess_ok:
  assumes ok: "system_ok tp H jd yd (length sol)"
  shows "\<exists>A. opt_hess mf tp sol p H jd yd = Inr A"
proof -
  let ?dof = "length sol"
  from ok have k: "keys jd = keys tp" and nr: "nrows H = ?dof" and nc: "ncols H = ?dof"
    and t: "list_all (term_ok ?dof jd yd) (keys tp)"
    by (simp_all add: system_ok_def)
  from op_diag_vec_ok [OF t refl, of p "[]"]
  obtain dv where dv: "op_diag_vec sol p jd yd (keys tp) [] = Inr dv"
    and m: "\<forall>k. map_of dv k = (if k \<in> set (keys tp) then Some (diag_vec_of sol p jd yd k) else None)"
    by auto
  show ?thesis
  proof (cases mf)
    case True
    then show ?thesis
      using dv k by (simp add: opt_hess_def opt_hess_op_def)
  next
    case False
    have lk: "\<forall>kx\<in>set (keys tp). lookup dv kx = Inr (diag_vec_of sol p jd yd kx)"
      using m by (simp add: lookup_def)
    have z: "sp_matvec H (np_zeros ?dof) = Inr (mat_vec H (np_zeros ?dof))"
      using nc by (simp add: sp_matvec_def np_zeros_def)
    from hess_loops [OF t lk _ refl z nr nc]
    obtain M where "opt_hess_mtx_loop sol p jd yd (keys tp) H = Inr M"
      by (auto simp: np_zeros_def)
    then show ?thesis
      using False by (simp add: opt_hess_def opt_hess_mtx_def)
  qed
qed

lemma newton_iteration_run:
  assumes sys: "system_ok tp H jd yd (num_dof num)" and co: "collaborators_return co"
      and ls: "length sol = num_dof num" and ld: "length d_sol = num_dof num"
  shows "\<exists>mtx rhs d' sol' nrm fval.
           newton_iteration co opts num tp H jd yd y it (sol, d_sol)
             = ([SolverInitialize mtx, SolverSolve rhs d_sol y (Inr d'),
                 LineSearch sol d' 1 (Inr sol'), Printed (it + 1) y nrm fval],
                Inr (sol', d', nrm))
           \<and> length sol' = num_dof num \<and> length d' = num_dof num
           \<and> opt_norm tp sol' (approx_norm opts) H jd yd = Inr nrm"
proof -
  let ?p = "approx_norm opts"
  from sys ls have sys': "system_ok tp H jd yd (length sol)" by simp
  from opt_hess_ok [OF sys'] obtain mtx where
    mtx: "opt_hess (use_mtx_free opts) tp sol ?p H jd yd = Inr mtx" by blast
  from opt_grad_ok [OF sys ls] obtain g where
    g: "opt_grad tp sol ?p H jd yd = Inr g" "length g = num_dof num" by blast
  define rhs where "rhs = np_neg g"
  have rhs: "rbind (opt_grad tp sol ?p H jd yd) (\<lambda>g. np_assign (num_dof num) (np_neg g)) = Inr rhs"
    using g by (simp add: np_assign_def np_neg_def rhs_def)
  have lrhs: "length rhs = length d_sol" using g ld by (simp add: rhs_def np_neg_def)
  have init: "solver_initialize co mtx = Inr ()"
    using co by (simp add: collaborators_return_def)
  from co lrhs obtain d' where d': "solver_solve co mtx rhs d_sol y = Inr d'" "length d' = length d_sol"
    unfolding collaborators_return_def by blast
  have "length d' = length sol" using d' ld ls by simp
  with co obtain sol' where
    sol': "line_search co sol d' (\<lambda>x. opt_func tp x ?p H jd yd) (\<lambda>x. opt_grad tp x ?p H jd yd) 1 = Inr sol'"
          "length sol' = length sol"
    unfolding collaborators_return_def by blast
  have lsol': "length sol' = num_dof num" using sol' ls by simp
  from opt_norm_ok [OF sys lsol'] obtain nrm where
    nrm: "opt_norm tp sol' ?p H jd yd = Inr nrm" by blast
  from opt_func_ok [OF sys lsol'] obtain fval where
    fval: "opt_func tp sol' ?p H jd yd = Inr fval" by blast
  have asg: "np_assign (num_dof num) sol' = Inr sol'"
    using lsol' by (simp add: np_assign_def)
  have "newton_iteration co opts num tp H jd yd y it (sol, d_sol)
             = ([SolverInitialize mtx, SolverSolve rhs d_sol y (Inr d'),
                 LineSearch sol d' 1 (Inr sol'), Printed (it + 1) y nrm fval],
                Inr (sol', d', nrm))"
    using mtx rhs init d'(1) sol'(1) asg nrm fval
    by (simp add: newton_iteration_def quiet_def emit_def Let_def)
  moreover have "length d' = num_dof num"
    using d'(2) ld by simp
  ultimately show ?thesis
    using lsol' nrm by blast
qed

text \<open>The Newton loop, by induction on the number of passes that remain.\<close>

lemma newton_loop_run:
  assumes sys: "system_ok tp H jd yd (num_dof num)" and co: "collaborators_return co"
      and ls: "length sol = num_dof num" and ld: "length d_sol = num_dof num"
  shows "\<exists>evs sol'.
           newton_loop co opts num tp H jd yd y k it (sol, d_sol) = (evs, Inr sol')
           \<and> length sol' = num_dof num
           \<and> newton_passes evs \<le> k
           \<and> length (pass_norms evs) = newton_passes evs
           \<and> length (accepted evs) = newton_passes evs
           \<and> sol' = last (sol # accepted evs)
           \<and> list_all2 (\<lambda>x n. opt_norm tp x (approx_norm opts) H jd yd = Inr n) (accepted evs) (pass_norms evs)
           \<and> list_all (\<lambda>n. \<not> n < 1 / 10 ^ 16) (butlast (pass_norms evs))
           \<and> (newton_passes evs < k \<longrightarrow> pass_norms evs \<noteq> [] \<and> last (pass_norms evs) < 1 / 10 ^ 16)
           \<and> (0 < k \<longrightarrow> 0 < newton_passes evs \<and> (\<exists>nrm fval. Printed (it + 1) y nrm fval \<in> set evs))"
  using ls ld
proof (induction k arbitrary: it sol d_sol)
  case 0
  then show ?case by (simp add: quiet_def)
next
  case (Suc k)
  from newton_iteration_run [OF sys co Suc.prems, of opts y it]
  obtain mtx rhs d' sol1 nrm fval where
    it: "newton_iteration co opts num tp H jd yd y it (sol, d_sol)
             = ([SolverInitialize mtx, SolverSolve rhs d_sol y (Inr d'),
                 LineSearch sol d' 1 (Inr sol1), Printed (it + 1) y nrm fval],
                Inr (sol1, d', nrm))"
    and l1: "length sol1 = num_dof num" and ld': "length d' = num_dof num"
    and n1: "opt_norm tp sol1 (approx_norm opts) H jd yd = Inr nrm"
    by blast
  show ?case
  proof (cases "nrm < 1 / 10 ^ 16")
    case True
    have "newton_loop co opts num tp H jd yd y (Suc k) it (sol, d_sol)
          = ([SolverInitialize mtx, SolverSolve rhs d_sol y (Inr d'),
              LineSearch sol d' 1 (Inr sol1), Printed (it + 1) y nrm fval], Inr sol1)"
      using it True by (simp add: quiet_def)
    then show ?thesis
      using l1 n1 True by simp
  next
    case False
    from Suc.IH [OF l1 ld', of "it + 1"] obtain evs sol' where
      r: "newton_loop co opts num tp H jd yd y k (it + 1) (sol1, d') = (evs, Inr sol')"
      and p: "length sol' = num_dof num" "newton_passes evs \<le> k"
        "length (pass_norms evs) = newton_passes evs" "length (accepted evs) = newton_passes evs"
        "sol' = last (sol1 # accepted evs)"
        "list_all2 (\<lambda>x n. opt_norm tp x (approx_norm opts) H jd yd = Inr n) (accepted evs) (pass_norms evs)"
        "list_all (\<lambda>n. \<not> n < 1 / 10 ^ 16) (butlast (pass_norms evs))"
        "newton_passes evs < k \<longrightarrow> pass_norms evs \<noteq> [] \<and> last (pass_norms evs) < 1 / 10 ^ 16"
      by blast
    have "newton_loop co opts num tp H jd yd y (Suc k) it (sol, d_sol)
          = ([SolverInitialize mtx, SolverSolve rhs d_sol y (Inr d'),
              LineSearch sol d' 1 (Inr sol1), Printed (it + 1) y nrm fval] @ evs, Inr sol')"
      using it False r by simp
    then show ?thesis
      using p n1 False by auto
  qed
qed

section \<open>The whole fit driver\<close>

lemma newton_passes_append: "newton_passes (a @ b) = newton_passes a + newton_passes b"
  by (induction a rule: newton_passes.induct) simp_all

lemma newton_passes_concat: "newton_passes (concat ls) = sum_list (map newton_passes ls)"
  by (induction ls) (simp_all add: newton_passes_append)

lemma wmap_run:
  assumes "\<forall>a\<in>set xs. \<exists>r. snd (f a) = Inr r"
  shows "wmap f xs = (concat (map (\<lambda>a. fst (f a)) xs), Inr (map (\<lambda>a. projr (snd (f a))) xs))"
  using assms
proof (induction xs)
  case Nil
  then show ?case by simp
next
  case (Cons a xs)
  from Cons.prems obtain r where "snd (f a) = Inr r" by auto
  then have "f a = (fst (f a), Inr r)" by (metis prod.collapse)
  then obtain evs where fa: "f a = (evs, Inr r)" by blast
  from Cons.IH Cons.prems
  have "wmap f xs = (concat (map (\<lambda>a. fst (f a)) xs), Inr (map (\<lambda>a. projr (snd (f a))) xs))"
    by simp
  then show ?case using fa by simp
qed

lemma solve_column_run:
  assumes ok: "fit_data_ok num H fd" and co: "collaborators_return co"
      and y: "y < num_y num" and ls: "length s = num_dof num"
  shows "\<exists>evs sol'. solve_column co opts num (tp_of fd) H (jd_of fd) y s = (evs, Inr sol')
           \<and> (0 < max_nln_iter opts \<longrightarrow>
                 0 < newton_passes evs \<and> (\<exists>nrm fval. Printed 1 y nrm fval \<in> set evs))
           \<and> (max_nln_iter opts \<le> 0 \<longrightarrow> evs = [] \<and> sol' = s)"
proof -
  let ?yd = "yt_dict_of (terms_at fd y)" and ?p = "approx_norm opts"
  note sys = system_ok_fit_data [OF ok, of y]
  note yd = get_yt_dict_ok [OF ok y]
  have lz: "length (np_zeros (num_dof num)) = num_dof num" by (simp add: np_zeros_def)
  have "\<exists>evs sol'.
           newton_loop co opts num (tp_of fd) H (jd_of fd) ?yd y (nat (max_nln_iter opts)) 0
             (s, np_zeros (num_dof num)) = (evs, Inr sol')
           \<and> (0 < nat (max_nln_iter opts) \<longrightarrow>
                 0 < newton_passes evs \<and> (\<exists>nrm fval. Printed (0 + 1) y nrm fval \<in> set evs))"
    using newton_loop_run [OF sys co ls lz, of opts y "nat (max_nln_iter opts)" 0]
    by (elim exE conjE) (intro exI conjI; assumption)
  then show ?thesis
  proof (elim exE conjE)
    fix evs sol'
    assume loop: "newton_loop co opts num (tp_of fd) H (jd_of fd) ?yd y (nat (max_nln_iter opts)) 0
             (s, np_zeros (num_dof num)) = (evs, Inr sol')"
      and pos: "0 < nat (max_nln_iter opts) \<longrightarrow>
                0 < newton_passes evs \<and> (\<exists>nrm fval. Printed (0 + 1) y nrm fval \<in> set evs)"
    show ?thesis
    proof (cases "0 < max_nln_iter opts")
      case True
      from opt_norm_ok [OF sys ls] obtain n0 where n0: "opt_norm (tp_of fd) s ?p H (jd_of fd) ?yd = Inr n0"
        by blast
      from opt_func_ok [OF sys ls] obtain f0 where f0: "opt_func (tp_of fd) s ?p H (jd_of fd) ?yd = Inr f0"
        by blast
      have "solve_column co opts num (tp_of fd) H (jd_of fd) y s = (Printed 0 y n0 f0 # evs, Inr sol')"
        using True yd n0 f0 loop by (simp add: solve_column_def quiet_def emit_def Let_def)
      then show ?thesis using True pos by auto
    next
      case False
      then have "nat (max_nln_iter opts) = 0" by simp
      then have "solve_column co opts num (tp_of fd) H (jd_of fd) y s = ([], Inr s)"
        using False yd by (simp add: solve_column_def quiet_def Let_def)
      then show ?thesis using False by simp
    qed
  qed
qed

lemma solve_run:
  assumes ok: "fit_data_ok num H fd" and co: "collaborators_return co"
      and b: "bootstrap co opts num (tp_of fd) H (jd_of fd) = (blog, Inr xs)"
      and lxs: "length xs = num_y num" "\<forall>x\<in>set xs. length x = num_dof num"
  shows "solve co opts num (tp_of fd) H (jd_of fd)
           = (blog @ concat (map (\<lambda>(y, s). fst (solve_column co opts num (tp_of fd) H (jd_of fd) y s))
                               (zip [0..<num_y num] xs)),
              Inr (map (\<lambda>(y, s). projr (snd (solve_column co opts num (tp_of fd) H (jd_of fd) y s)))
                       (zip [0..<num_y num] xs)))"
proof -
  let ?F = "\<lambda>(ind_y, s). solve_column co opts num (tp_of fd) H (jd_of fd) ind_y s"
  have "\<exists>r. snd (?F a) = Inr r" if "a \<in> set (zip [0..<num_y num] xs)" for a
  proof -
    obtain y s where a: "a = (y, s)" by (cases a)
    from that a have "y < num_y num" "s \<in> set xs"
      by (auto dest: set_zip_leftD set_zip_rightD)
    with solve_column_run [OF ok co, of y s opts] lxs a show ?thesis by auto
  qed
  from wmap_run [of "zip [0..<num_y num] xs" ?F] this
  have "wmap ?F (zip [0..<num_y num] xs)
        = (concat (map (\<lambda>a. fst (?F a)) (zip [0..<num_y num] xs)),
           Inr (map (\<lambda>a. projr (snd (?F a))) (zip [0..<num_y num] xs)))"
    by blast
  then show ?thesis
    using b by (simp add: solve_def case_prod_unfold)
qed

section \<open>The claims on the fit driver\<close>

lemma newton_passes_solves:
  "newton_passes (map (\<lambda>y. SolverSolve (b y) s (i y) (r y)) ys) = 0"
  by (induction ys) simp_all

lemma sum_list_ge_length:
  "\<forall>e\<in>set es. 1 \<le> (f e :: nat) \<Longrightarrow> length es \<le> sum_list (map f es)"
  by (induction es) auto

lemma in_concatI: "x \<in> set l \<Longrightarrow> l \<in> set ls \<Longrightarrow> x \<in> set (concat ls)"
  by auto

lemma collaborators_return_co1: "collaborators_return co1"
  by (auto simp: collaborators_return_def co1_def solve_1x1_def split: sum.splits list.splits)

lemma fit_data_ok_fd1: "fit_data_ok num1 H0 fd1"
  by (simp add: fit_data_ok_def num1_def H0_def fd1_def J0_def sp_wf_def)





text \<open>
  Claim C1, as amended.  The Newton loop is gated by \<open>max_nln_iter\<close> alone, whatever
  \<open>approx_norm\<close> is (2 included): when \<open>max_nln_iter > 0\<close> every output column has at
  least one pass through the loop, with its line search and its report of iteration 1;
  when \<open>max_nln_iter \<le> 0\<close> the loop is skipped and the run, with the coefficient
  vector it returns, is the bootstrap run.
\<close>

theorem newton_loop_gated_by_budget_only:
  assumes "fit_data_ok num H fd" and "collaborators_return co"
  shows "(0 < max_nln_iter opts \<longrightarrow>
            num_y num \<le> newton_passes (fst (solve co opts num (tp_of fd) H (jd_of fd)))
            \<and> (\<forall>y<num_y num. \<exists>nrm fval.
                  Printed 1 y nrm fval \<in> set (fst (solve co opts num (tp_of fd) H (jd_of fd)))))
       \<and> (max_nln_iter opts \<le> 0 \<longrightarrow>
            solve co opts num (tp_of fd) H (jd_of fd) = bootstrap co opts num (tp_of fd) H (jd_of fd)
            \<and> newton_passes (fst (solve co opts num (tp_of fd) H (jd_of fd))) = 0)"
proof -
  let ?col = "\<lambda>(y, s). solve_column co opts num (tp_of fd) H (jd_of fd) y s"
  from bootstrap_run [OF assms, of opts] obtain mtx xs where
    lxs: "length xs = num_y num" "\<forall>x\<in>set xs. length x = num_dof num"
    and b: "bootstrap co opts num (tp_of fd) H (jd_of fd)
             = (SolverInitialize mtx #
                  map (\<lambda>y. SolverSolve
                             (np_neg (grad_formula H (map snd (terms_at fd y)) (np_zeros (num_dof num)) 2))
                             (np_zeros (num_dof num)) y (Inr (xs ! y)))
                      [0..<num_y num],
                Inr xs)"
    by blast
  let ?blog = "fst (bootstrap co opts num (tp_of fd) H (jd_of fd))"
  let ?cols = "map (\<lambda>a. fst (?col a)) (zip [0..<num_y num] xs)"
  from solve_run [OF assms b lxs]
  have run: "solve co opts num (tp_of fd) H (jd_of fd)
             = (?blog @ concat ?cols, Inr (map (\<lambda>a. projr (snd (?col a))) (zip [0..<num_y num] xs)))"
    using b by (simp add: case_prod_unfold)
  have nb: "newton_passes ?blog = 0"
    unfolding b by (simp add: newton_passes_solves)
  have col: "\<exists>evs sol'. ?col (y, xs ! y) = (evs, Inr sol')
               \<and> (0 < max_nln_iter opts \<longrightarrow>
                     0 < newton_passes evs \<and> (\<exists>nrm fval. Printed 1 y nrm fval \<in> set evs))
               \<and> (max_nln_iter opts \<le> 0 \<longrightarrow> evs = [] \<and> sol' = xs ! y)"
    if "y < num_y num" for y
    using solve_column_run [OF assms that, of "xs ! y" opts] lxs that by simp
  have zy: "zip [0..<num_y num] xs ! y = (y, xs ! y)" if "y < num_y num" for y
    using that lxs by simp
  show ?thesis
  proof (intro conjI impI allI)
    assume pos: "0 < max_nln_iter opts"
    have "1 \<le> newton_passes e" if "e \<in> set ?cols" for e
    proof -
      from that lxs obtain y where y: "y < num_y num" "e = fst (?col (y, xs ! y))"
        by (auto simp: in_set_conv_nth zy)
      from col [OF y(1)] pos y(2) show ?thesis by auto
    qed
    then have "sum_list (map newton_passes ?cols) \<ge> length ?cols"
      by (intro sum_list_ge_length) blast
    then show "num_y num \<le> newton_passes (fst (solve co opts num (tp_of fd) H (jd_of fd)))"
      using lxs by (simp add: run newton_passes_append newton_passes_concat nb)
  next
    fix y assume pos: "0 < max_nln_iter opts" and y: "y < num_y num"
    from col [OF y] pos obtain nrm fval where p: "Printed 1 y nrm fval \<in> set (fst (?col (y, xs ! y)))"
      by auto
    have "(y, xs ! y) \<in> set (zip [0..<num_y num] xs)"
      using y lxs by (auto simp: in_set_zip intro!: exI [of _ y])
    then have "fst (?col (y, xs ! y)) \<in> (\<lambda>a. fst (?col a)) ` set (zip [0..<num_y num] xs)"
      by (rule imageI)
    then have "fst (?col (y, xs ! y)) \<in> set ?cols"
      by simp
    from in_concatI [OF p this]
    have "Printed 1 y nrm fval \<in> set (fst (solve co opts num (tp_of fd) H (jd_of fd)))"
      unfolding run by simp
    then show "\<exists>nrm fval. Printed 1 y nrm fval \<in> set (fst (solve co opts num (tp_of fd) H (jd_of fd)))"
      by blast
  next
    assume np: "max_nln_iter opts \<le> 0"
    have "?col a = ([], Inr (snd a))" if "a \<in> set (zip [0..<num_y num] xs)" for a
    proof -
      from that lxs obtain y where y: "y < num_y num" "a = (y, xs ! y)"
        by (auto simp: in_set_conv_nth)
      from col [OF y(1)] np y(2) show ?thesis by auto
    qed
    then have e: "?cols = map (\<lambda>a. []) (zip [0..<num_y num] xs)"
      and r: "map (\<lambda>a. projr (snd (?col a))) (zip [0..<num_y num] xs) = map snd (zip [0..<num_y num] xs)"
      by simp_all
    show s: "solve co opts num (tp_of fd) H (jd_of fd) = bootstrap co opts num (tp_of fd) H (jd_of fd)"
      unfolding run e r using b lxs by simp
    show "newton_passes (fst (solve co opts num (tp_of fd) H (jd_of fd))) = 0"
      unfolding s by (rule nb)
  qed
qed

theorem newton_loop_gated_by_budget_only_witness:
  "fit_data_ok num1 H0 fd1 \<and> collaborators_return co1
   \<and> approx_norm (opts1 2 1) = 2 \<and> 0 < max_nln_iter (opts1 2 1)
   \<and> num_y num1 \<le> newton_passes (fst (solve co1 (opts1 2 1) num1 (tp_of fd1) H0 (jd_of fd1)))
   \<and> (\<exists>nrm fval. Printed 1 0 nrm fval \<in> set (fst (solve co1 (opts1 2 1) num1 (tp_of fd1) H0 (jd_of fd1))))
   \<and> max_nln_iter (opts1 2 0) \<le> 0
   \<and> solve co1 (opts1 2 0) num1 (tp_of fd1) H0 (jd_of fd1)
        = bootstrap co1 (opts1 2 0) num1 (tp_of fd1) H0 (jd_of fd1)"
proof -
  note t1 = newton_loop_gated_by_budget_only [OF fit_data_ok_fd1 collaborators_return_co1, of "opts1 2 1"]
  note t0 = newton_loop_gated_by_budget_only [OF fit_data_ok_fd1 collaborators_return_co1, of "opts1 2 0"]
  have p: "approx_norm (opts1 2 1) = 2" "0 < max_nln_iter (opts1 2 1)" "max_nln_iter (opts1 2 0) \<le> 0"
    by (simp_all add: opts1_def)
  have y: "0 < num_y num1" by (simp add: num1_def)
  from t1 p(2) have a: "num_y num1 \<le> newton_passes (fst (solve co1 (opts1 2 1) num1 (tp_of fd1) H0 (jd_of fd1)))"
    by blast
  from t1 p(2) y
  have b: "\<exists>nrm fval. Printed 1 0 nrm fval \<in> set (fst (solve co1 (opts1 2 1) num1 (tp_of fd1) H0 (jd_of fd1)))"
    by blast
  from t0 p(3) have c: "solve co1 (opts1 2 0) num1 (tp_of fd1) H0 (jd_of fd1)
        = bootstrap co1 (opts1 2 0) num1 (tp_of fd1) H0 (jd_of fd1)"
    by blast
  show ?thesis
    by (intro conjI fit_data_ok_fd1 collaborators_return_co1 p a b c)
qed

lemmas fit_simps =
  solve_def bootstrap_def bootstrap_rhs_def solve_column_def newton_iteration_def
  get_yt_dict_def opt_hess_2_def opt_hess_mtx_2_def opt_hess_def opt_hess_mtx_def
  opt_grad_def opt_func_def opt_norm_def quiet_def emit_def Let_def keys_def lookup_def
  np_col_def np_assign_def np_neg_def np_zeros_def np_bin_def np_inplace_def np_pow_def
  np_scale_def np_sum_def np_dot_def np_linalg_norm_def
  sp_matvec_def mat_vec_def sp_row_dot_def sp_scale_def sp_transpose_def sp_matmul_def
  sp_iadd_def sp_diags_def
  co1_def solve_1x1_def num1_def opts1_def fd1_def tp_of_def jd_of_def J0_def H0_def

text \<open>
  The claim as stated fails: with \<open>approx_norm = 2\<close> and \<open>max_nln_iter = 1\<close> the run has
  one pass through the Newton loop, with a second initialization of the solver, a
  second solve and a line search, after the bootstrap.
\<close>

theorem newton_loop_runs_for_norm_2_counterexample:
  "approx_norm (opts1 2 1) = 2 \<and> 0 < max_nln_iter (opts1 2 1)
   \<and> newton_passes (fst (solve co1 (opts1 2 1) num1 (tp_of fd1) H0 (jd_of fd1))) = 1
   \<and> solver_calls (fst (solve co1 (opts1 2 1) num1 (tp_of fd1) H0 (jd_of fd1))) = 4"
  by (simp add: fit_simps)

end
